theory Spec2Isabelle
  imports
    Main
    "HOL-Library.Char_ord"
    "HOL-Library.List_Lexorder"
    "HOL-Library.Product_Lexorder"
    "HOL-Library.Sublist"
    "HOL-Library.AList"
begin

section \<open>Text, dates and the library functions the journal code calls\<close>

text \<open>
  A Python text string is modelled as a \<^typ>\<open>string\<close>: one \<^typ>\<open>char\<close> stands for one code
  point (those below 256 are representable), so \<^term>\<open>length\<close> is Python's \<open>len\<close>.
\<close>

abbreviation NL :: char where
  "NL \<equiv> CHR 0x0A"

text \<open>\<open>s.rstrip(chars)\<close>: drop the longest suffix made of characters of \<open>chars\<close>.\<close>

definition rstrip :: "string \<Rightarrow> string \<Rightarrow> string" where
  "rstrip chars s = rev (dropWhile (\<lambda>c. c \<in> set chars) (rev s))"

text \<open>\<open>sep.join(xs)\<close>.\<close>

fun join :: "string \<Rightarrow> string list \<Rightarrow> string" where
  "join sep [] = []"
| "join sep [x] = x"
| "join sep (x # y # ys) = x @ sep @ join sep (y # ys)"

text \<open>\<open>str(n)\<close> for a non-negative integer: its decimal digits, no padding.\<close>

definition digit_char :: "nat \<Rightarrow> char" where
  "digit_char d = ''0123456789'' ! d"

fun str_nat :: "nat \<Rightarrow> string" where
  "str_nat n = (if n < 10 then [digit_char n] else str_nat (n div 10) @ [digit_char (n mod 10)])"

declare str_nat.simps [simp del]

text \<open>
  \<open>datetime\<close>: the fields the code reads. Python keeps \<open>1 \<le> year \<le> 9999\<close> and
  \<open>1 \<le> month \<le> 12\<close>; none of the fields is ever negative.
\<close>

record datetime =
  year :: nat
  month :: nat
  day :: nat
  hour :: nat
  minute :: nat
  second :: nat

text \<open>\<open>journal.config\<close>: the three keys the entry code reads. A falsy \<open>linewrap\<close> is 0.\<close>

record config =
  tagsymbols :: string
  timeformat :: string
  linewrap :: nat

text \<open>The values \<open>to_dict\<close> builds and \<open>json.dumps\<close> serialises; a dict keeps insertion order.\<close>

datatype jval =
    JStr string
  | JInt int
  | JBool bool
  | JList "jval list"
  | JDict "(string \<times> jval) list"

text \<open>
  Modelled from the spec: the class \<open>Todo\<close> of \<open>jrnl/Todo.py\<close>, which is not among the
  sources. The spec gives it as an opaque item exposing a completion flag, a conversion to a
  display-line string and a conversion to a structured dictionary.
\<close>

record todo =
  is_complete :: bool
  to_item_format :: string
  todo_to_dict :: jval

section \<open>Entry\<close>

text \<open>
  \<open>Entry\<close> reads its journal only through \<open>self.journal.config\<close>, so the record holds that
  configuration in place of the reference.
\<close>

record entry =
  journal_config :: config
  date :: datetime
  title :: string
  body :: string
  starred :: bool
  tags :: "string list"
  todos :: "todo list"
  modified :: bool

record journal =
  entries :: "entry list"

text \<open>
  What the code calls outside the two source files: the Unicode tables behind \<open>str.lower\<close>
  and the regular-expression classes \<open>\s\<close> and \<open>\w\<close>, the chunk splitting of \<open>textwrap\<close>
  (\<open>wordsep_re.split\<close> without the empty pieces), \<open>json.dumps(..., indent=2)\<close>, the clock,
  \<open>datetime.strftime\<close> (the platform's formatter: which directives it knows, how it pads
  them and how it names the months are the C library's and the locale's), and the
  repository's own \<open>slugify(u(...))\<close> and \<open>Todo.parse_entry_todos\<close>, whose files are not among
  the sources.
\<close>

record env =
  lower_char :: "char \<Rightarrow> char"
  isspace :: "char \<Rightarrow> bool"
  isword :: "char \<Rightarrow> bool"
  wordsep_split :: "string \<Rightarrow> string list"
  dumps :: "jval \<Rightarrow> string"
  now :: datetime
  slugify :: "string \<Rightarrow> string"
  parse_entry_todos :: "entry \<Rightarrow> todo list"
  strftime :: "string \<Rightarrow> datetime \<Rightarrow> string"

text \<open>
  What a call does: it returns, it raises, or it leaves the fragment modelled here. An
  \<open>IOError\<close> carries its \<open>filename\<close>, which is \<open>None\<close> when the failing operation had no path
  in hand, and its \<open>strerror\<close>.
\<close>

datatype exn =
    ReError
  | IOError "string option" string
  | UnboundLocalError

datatype 'a outcome =
    Returns 'a
  | Raises exn
  | Unsupported

subsection \<open>Word wrapping\<close>

text \<open>
  \<open>textwrap.fill(text, width, initial_indent, subsequent_indent, drop_whitespace)\<close> as the
  standard library's \<open>TextWrapper\<close> computes it with its other options at their defaults:
  tabs are expanded and whitespace characters become spaces, the text is split into chunks
  (by the regular expression \<open>wordsep_re\<close>, taken from the environment), and
  \<open>_wrap_chunks\<close> fills one line per round of its outer loop. \<open>pprint\<close> calls it only with a
  width of at least 1.
\<close>

fun expandtabs_from :: "nat \<Rightarrow> string \<Rightarrow> string" where
  "expandtabs_from col [] = []"
| "expandtabs_from col (c # cs) =
     (if c = CHR 0x09
      then replicate (8 - col mod 8) CHR '' '' @ expandtabs_from (col + (8 - col mod 8)) cs
      else c # expandtabs_from (if c = NL \<or> c = CHR 0x0D then 0 else col + 1) cs)"

definition munge_whitespace :: "string \<Rightarrow> string" where
  "munge_whitespace text' =
     map (\<lambda>c. if c \<in> set [CHR 0x09, NL, CHR 0x0B, CHR 0x0C, CHR 0x0D, CHR '' ''] then CHR '' '' else c)
         (expandtabs_from 0 text')"

text \<open>\<open>chunk.strip() == ''\<close>.\<close>

definition blank :: "env \<Rightarrow> string \<Rightarrow> bool" where
  "blank env chunk = list_all (isspace env) chunk"

text \<open>The inner loop: chunks move to the current line while they fit.\<close>

fun fit_chunks :: "int \<Rightarrow> string list \<Rightarrow> string list \<Rightarrow> string list \<times> string list" where
  "fit_chunks width cur_line [] = (cur_line, [])"
| "fit_chunks width cur_line (c # cs) =
     (if int (length (concat cur_line)) + int (length c) \<le> width
      then fit_chunks width (cur_line @ [c]) cs
      else (cur_line, c # cs))"

text \<open>\<open>chunk.rfind('-', 0, space_left)\<close>.\<close>

definition rfind_hyphen :: "string \<Rightarrow> nat \<Rightarrow> nat option" where
  "rfind_hyphen chunk space_left =
     (case filter (\<lambda>i. chunk ! i = CHR ''-'') (rev [0..<min space_left (length chunk)]) of
        [] \<Rightarrow> None
      | i # _ \<Rightarrow> Some i)"

text \<open>
  \<open>_handle_long_word\<close> (with \<open>break_long_words\<close> and \<open>break_on_hyphens\<close> on): the head of the
  next chunk goes onto the line and the rest stays first in the chunk list, also when that
  rest is empty. Older versions of the library always cut at \<open>space_left\<close>; the hyphen rule
  only moves the cut to the left, and nothing proved below depends on it.
\<close>

definition handle_long_word :: "int \<Rightarrow> string list \<Rightarrow> string list \<Rightarrow> string list \<times> string list" where
  "handle_long_word width cur_line chunks =
     (let space_left = (if width < 1 then 1 else nat (width - int (length (concat cur_line))));
          chunk = hd chunks;
          cut = (if length chunk > space_left
                 then (case rfind_hyphen chunk space_left of
                         Some hyphen \<Rightarrow>
                           if hyphen > 0 \<and> list_ex (\<lambda>c. c \<noteq> CHR ''-'') (take hyphen chunk)
                           then hyphen + 1 else space_left
                       | None \<Rightarrow> space_left)
                 else space_left)
      in (cur_line @ [take cut chunk], drop cut chunk # tl chunks))"

text \<open>One round of the outer loop of \<open>_wrap_chunks\<close>, on a chunk list that is not empty.\<close>

definition wrap_round ::
  "env \<Rightarrow> nat \<Rightarrow> string \<Rightarrow> string \<Rightarrow> bool \<Rightarrow> string list \<Rightarrow> string list \<Rightarrow> string list \<times> string list" where
  "wrap_round env w initial_indent subsequent_indent drop_whitespace lines chunks =
     (let indent = (if lines \<noteq> [] then subsequent_indent else initial_indent);
          width = int w - int (length indent);
          chunks1 = (if drop_whitespace \<and> blank env (hd chunks) \<and> lines \<noteq> []
                     then tl chunks else chunks);
          (cur_line, chunks2) = fit_chunks width [] chunks1;
          (cur_line', chunks3) =
             (if chunks2 \<noteq> [] \<and> int (length (hd chunks2)) > width
              then handle_long_word width cur_line chunks2
              else (cur_line, chunks2));
          cur_line'' = (if drop_whitespace \<and> cur_line' \<noteq> [] \<and> blank env (last cur_line')
                        then butlast cur_line' else cur_line')
      in (if cur_line'' \<noteq> [] then lines @ [indent @ concat cur_line''] else lines, chunks3))"

text \<open>The outer loop; \<open>None\<close> stands for a loop that never ends.\<close>

partial_function (option) wrap_chunks ::
  "env \<Rightarrow> nat \<Rightarrow> string \<Rightarrow> string \<Rightarrow> bool \<Rightarrow> string list \<Rightarrow> string list \<Rightarrow> string list option" where
  "wrap_chunks env w initial_indent subsequent_indent drop_whitespace lines chunks =
     (if chunks = [] then Some lines
      else wrap_chunks env w initial_indent subsequent_indent drop_whitespace
             (fst (wrap_round env w initial_indent subsequent_indent drop_whitespace lines chunks))
             (snd (wrap_round env w initial_indent subsequent_indent drop_whitespace lines chunks)))"

declare wrap_chunks.simps [code]

definition textwrap_fill :: "env \<Rightarrow> string \<Rightarrow> nat \<Rightarrow> string \<Rightarrow> string \<Rightarrow> bool \<Rightarrow> string option" where
  "textwrap_fill env text' w initial_indent subsequent_indent drop_whitespace =
     map_option (join [NL])
       (wrap_chunks env w initial_indent subsequent_indent drop_whitespace []
          (wordsep_split env (munge_whitespace text')))"

subsection \<open>Tag extraction\<close>

text \<open>
  \<open>Entry.tag_regex\<close> splices \<open>tagsymbols\<close> unescaped into the pattern
  \<open>(?u)\s([{tags}][-+*#/\w]+)\<close>, so the regular-expression compiler reads what stands
  behind the first bracket, \<open>tagsymbols\<close> and then the template's \<open>][-+*#/\w]+)\<close>, by its
  rules for a character set: a leading \<open>^\<close> negates the set; a \<open>]\<close> closes it unless it
  would be its first member; a backslash makes the character behind it a member; \<open>a-b\<close> is
  a range (an error when \<open>b < a\<close>), and a \<open>-\<close> right before the closing bracket is a
  literal. With nothing before the template's own \<open>]\<close>, that bracket becomes a member and
  the following \<open>[-+\<close> is a bad range. A backslash before an ASCII letter or digit is a
  character class, a control character or an error; such a pattern is not interpreted here.
\<close>

datatype set_item =
    Literal char
  | Range char char

definition ascii_alnum :: "char \<Rightarrow> bool" where
  "ascii_alnum c = (c \<in> set ''abcdefghijklmnopqrstuvwxyzABCDEFGHIJKLMNOPQRSTUVWXYZ0123456789'')"

text \<open>One member code at the head of the source, and the source behind it.\<close>

fun class_member :: "string \<Rightarrow> (char \<times> string) outcome" where
  "class_member [] = Raises ReError"
| "class_member [c] = (if c = CHR 0x5C then Raises ReError else Returns (c, []))"
| "class_member (c # x # src) =
     (if c = CHR 0x5C then (if ascii_alnum x then Unsupported else Returns (x, src))
      else Returns (c, x # src))"

lemma class_member_shorter: "class_member src = Returns (x, r) \<Longrightarrow> length r < length src"
  by (induction src rule: class_member.induct) (auto split: if_splits)

text \<open>
  The members of the set up to the \<open>]\<close> that closes it, and the source behind that bracket.
\<close>

function parse_set :: "set_item list \<Rightarrow> string \<Rightarrow> (set_item list \<times> string) outcome" where
  "parse_set items [] = Raises ReError"
| "parse_set items (c # src0) =
     (if c = CHR '']'' \<and> items \<noteq> [] then Returns (items, src0)
      else case class_member (c # src0) of
             Raises x \<Rightarrow> Raises x
           | Unsupported \<Rightarrow> Unsupported
           | Returns (lo, src1) \<Rightarrow>
               (if take 1 src1 \<noteq> ''-'' then parse_set (items @ [Literal lo]) src1
                else if tl src1 = [] then Raises ReError
                else if hd (tl src1) = CHR '']''
                then Returns (items @ [Literal lo, Literal CHR ''-''], tl (tl src1))
                else case class_member (tl src1) of
                       Raises x \<Rightarrow> Raises x
                     | Unsupported \<Rightarrow> Unsupported
                     | Returns (hi, src2) \<Rightarrow>
                         if hi < lo then Raises ReError
                         else parse_set (items @ [Range lo hi]) src2))"
  by pat_completeness auto
termination
proof (relation "measure (\<lambda>(items, src). length src)")
  show "wf (measure (\<lambda>(items, src). length src))" by simp
next
  fix items :: "set_item list" and c src0 x2 lo src1
  assume "class_member (c # src0) = Returns x2" and "(lo, src1) = x2"
  then have "length src1 < length (c # src0)"
    by (auto dest: class_member_shorter)
  then show "((items @ [Literal lo], src1), (items, c # src0)) \<in> measure (\<lambda>(items, src). length src)"
    by simp
next
  fix items :: "set_item list" and c src0 x2 lo src1 x2a hi src2
  assume a: "class_member (c # src0) = Returns x2" "(lo, src1) = x2"
    and b: "class_member (tl src1) = Returns x2a" "(hi, src2) = x2a"
  from a have "length src1 < length (c # src0)"
    by (auto dest: class_member_shorter)
  moreover from b have "length src2 < length (tl src1)"
    by (auto dest: class_member_shorter)
  ultimately have "length src2 < length (c # src0)" by simp
  then show "((items @ [Range lo hi], src2), (items, c # src0)) \<in> measure (\<lambda>(items, src). length src)"
    by simp
qed

text \<open>
  The compiled pattern: whether the first set is negated, its members, and the text between
  that set and the template's \<open>[-+*#/\w]+\<close>. That text is empty unless a \<open>]\<close> of
  \<open>tagsymbols\<close> closed the set early; then it is the rest of \<open>tagsymbols\<close> and the template's
  \<open>]\<close>, which match themselves as long as none of them is special outside a set.
\<close>

datatype tag_pattern = TagPattern (negated: bool) (members: "set_item list") (literals: string)

definition template_tail :: string where
  "template_tail = ''[-+*#/'' @ [CHR 0x5C] @ ''w]+)''"

definition special_char :: "char \<Rightarrow> bool" where
  "special_char c = (c \<in> set (''.^$*+?{}[|()'' @ [CHR 0x5C]))"

definition tag_regex :: "string \<Rightarrow> tag_pattern outcome" where
  "tag_regex tagsyms =
     (let src = tagsyms @ '']'' @ template_tail;
          negate = (hd src = CHR ''^'');
          src' = (if negate then tl src else src)
      in case parse_set [] src' of
           Raises x \<Rightarrow> Raises x
         | Unsupported \<Rightarrow> Unsupported
         | Returns (items, rest) \<Rightarrow>
             (let n = length rest - length template_tail
              in if drop n rest = template_tail \<and> \<not> list_ex special_char (take n rest)
                 then Returns (TagPattern negate items (take n rest))
                 else Unsupported))"

fun item_matches :: "set_item \<Rightarrow> char \<Rightarrow> bool" where
  "item_matches (Literal l) c = (c = l)"
| "item_matches (Range lo hi) c = (lo \<le> c \<and> c \<le> hi)"

definition set_matches :: "tag_pattern \<Rightarrow> char \<Rightarrow> bool" where
  "set_matches p c = (list_ex (\<lambda>it. item_matches it c) (members p) \<noteq> negated p)"

text \<open>The second set of the pattern, \<open>[-+*#/\w]\<close>.\<close>

definition tag_char :: "env \<Rightarrow> char \<Rightarrow> bool" where
  "tag_char env c = (c \<in> set ''-+*#/'' \<or> isword env c)"

text \<open>
  One match attempt at the head of the text: \<open>\s\<close>, one character of the first set, the
  literal text if there is any, then the greedy \<open>[-+*#/\w]+\<close>. The pattern ends there, so
  the longest run is the match. The result is group 1 and the text after the match.
\<close>

fun match_here :: "env \<Rightarrow> tag_pattern \<Rightarrow> string \<Rightarrow> (string \<times> string) option" where
  "match_here env p (w # s # rest) =
     (let behind = drop (length (literals p)) rest
      in if isspace env w \<and> set_matches p s \<and> take (length (literals p)) rest = literals p
            \<and> takeWhile (tag_char env) behind \<noteq> []
         then Some (s # literals p @ takeWhile (tag_char env) behind, dropWhile (tag_char env) behind)
         else None)"
| "match_here env p _ = None"

lemma match_here_shorter:
  "match_here env p text = Some (tok, remaining) \<Longrightarrow> length remaining < length text"
proof (cases "(env, p, text)" rule: match_here.cases)
  case (1 env' p' w s rest)
  assume m: "match_here env p text = Some (tok, remaining)"
  from 1 m have "remaining = dropWhile (tag_char env) (drop (length (literals p)) rest)"
    by (auto simp: Let_def split: if_splits)
  moreover have "length (dropWhile (tag_char env) (drop (length (literals p)) rest))
                   \<le> length (drop (length (literals p)) rest)"
    by (rule length_dropWhile_le)
  ultimately show ?thesis using 1 by simp
qed auto

text \<open>\<open>re.findall\<close>: scan from the left; after a match go on behind it, else one character on.\<close>

function findall :: "env \<Rightarrow> tag_pattern \<Rightarrow> string \<Rightarrow> string list" where
  "findall env p [] = []"
| "findall env p (c # rest) =
     (case match_here env p (c # rest) of
        Some (tok, remaining) \<Rightarrow> tok # findall env p remaining
      | None \<Rightarrow> findall env p rest)"
  by pat_completeness auto
termination
  by (relation "measure (\<lambda>(env, p, text). length text)")
     (auto dest: match_here_shorter)

definition get_fulltext :: "env \<Rightarrow> entry \<Rightarrow> bool \<Rightarrow> string" where
  "get_fulltext env e lower =
     (let ret = '' '' @ join '' '' [title e, body e]
      in if lower then map (lower_char env) ret else ret)"

text \<open>
  \<open>Entry.parse_tags\<close> stores the matches in \<open>self.tags\<close>; the set it returns is the set of
  the stored list.
\<close>

definition parse_tags :: "env \<Rightarrow> entry \<Rightarrow> entry outcome" where
  "parse_tags env e =
     (let fulltext = get_fulltext env e True
      in case tag_regex (tagsymbols (journal_config e)) of
           Returns p \<Rightarrow> Returns (e\<lparr>tags := findall env p fulltext\<rparr>)
         | Raises x \<Rightarrow> Raises x
         | Unsupported \<Rightarrow> Unsupported)"

text \<open>
  The extraction as the specification words it: every place of the search text where a
  whitespace character is followed by a symbol of \<open>S\<close> and at least one tag character gives
  a token, the symbol and the run of tag characters behind it; the tokens are listed from
  left to right, whether or not they overlap.
\<close>

fun spec_tokens :: "env \<Rightarrow> string \<Rightarrow> string \<Rightarrow> string list" where
  "spec_tokens env S (w # s # rest) =
     (if isspace env w \<and> s \<in> set S \<and> takeWhile (tag_char env) rest \<noteq> []
      then [s # takeWhile (tag_char env) rest] else [])
     @ spec_tokens env S (s # rest)"
| "spec_tokens env S [w] = []"
| "spec_tokens env S [] = []"

definition parse_todos :: "env \<Rightarrow> entry \<Rightarrow> entry" where
  "parse_todos env e = e\<lparr>todos := parse_entry_todos env e\<rparr>"

definition parse_data :: "env \<Rightarrow> entry \<Rightarrow> entry outcome" where
  "parse_data env e =
     (case parse_tags env e of
        Returns e' \<Rightarrow> Returns (parse_todos env e')
      | Raises x \<Rightarrow> Raises x
      | Unsupported \<Rightarrow> Unsupported)"

text \<open>
  \<open>Entry.__init__\<close>. Tags and todos are derived before \<open>starred\<close> and \<open>modified\<close> are
  assigned, so the parsers see neither.
\<close>

definition Entry_init ::
  "env \<Rightarrow> config \<Rightarrow> datetime option \<Rightarrow> string \<Rightarrow> string \<Rightarrow> bool \<Rightarrow> entry outcome" where
  "Entry_init env cfg date0 title0 body0 starred0 =
     (let e = \<lparr>journal_config = cfg,
                 date = (case date0 of None \<Rightarrow> now env | Some d \<Rightarrow> d),
                 title = rstrip [NL, CHR '' ''] title0,
                 body = rstrip [NL, CHR '' ''] body0,
                 starred = False, tags = [], todos = [], modified = False\<rparr>
      in case parse_data env e of
           Returns e' \<Rightarrow> Returns (e'\<lparr>starred := starred0, modified := False\<rparr>)
         | Raises x \<Rightarrow> Raises x
         | Unsupported \<Rightarrow> Unsupported)"

subsection \<open>Renderings\<close>

text \<open>\<open>Entry.__unicode__\<close>: the text written into a journal file.\<close>

definition to_write_form :: "env \<Rightarrow> entry \<Rightarrow> string" where
  "to_write_form env e =
     (let date_str = strftime env (timeformat (journal_config e)) (date e);
          title0 = date_str @ '' '' @ rstrip [NL, CHR '' ''] (title e);
          title1 = (if starred e then title0 @ '' *'' else title0)
      in title1
         @ (if rstrip [NL, CHR '' ''] (body e) \<noteq> [] then [NL] else [])
         @ rstrip [NL, CHR '' ''] (body e)
         @ [NL])"

text \<open>
  \<open>str.splitlines()\<close>: the text is cut at every line boundary (\<open>\n\<close>, \<open>\r\<close>, \<open>\r\n\<close> as
  one, \<open>\v\<close>, \<open>\f\<close>, \<open>\x1c\<close>, \<open>\x1d\<close>, \<open>\x1e\<close>, \<open>\x85\<close>); a boundary at the very end
  opens no further line.
\<close>

definition line_boundary :: "char \<Rightarrow> bool" where
  "line_boundary c =
     (c \<in> set [NL, CHR 0x0D, CHR 0x0B, CHR 0x0C, CHR 0x1C, CHR 0x1D, CHR 0x1E, CHR 0x85])"

fun splitlines_from :: "string \<Rightarrow> string \<Rightarrow> string list" where
  "splitlines_from cur [] = (if cur = [] then [] else [cur])"
| "splitlines_from cur [c] = (if line_boundary c then [cur] else [cur @ [c]])"
| "splitlines_from cur (c # d # rest) =
     (if c = CHR 0x0D \<and> d = NL then cur # splitlines_from [] rest
      else if line_boundary c then cur # splitlines_from [] (d # rest)
      else splitlines_from (cur @ [c]) (d # rest))"

definition splitlines :: "string \<Rightarrow> string list" where
  "splitlines s = splitlines_from [] s"

text \<open>The local \<open>has_body\<close> of \<open>Entry.pprint\<close>, on the body as it is stored.\<close>

definition has_body :: "entry \<Rightarrow> bool" where
  "has_body e = (length (body e) > 20 \<or> \<not> list_all (\<lambda>char. char \<in> set [CHR '' '', NL]) (body e))"

text \<open>
  \<open>Entry.pprint(short)\<close>. Title and body are computed before \<open>has_body\<close> and \<open>short\<close> are
  looked at, so the call returns only if every \<open>textwrap.fill\<close> it makes returns.
\<close>

definition pprint_title :: "env \<Rightarrow> entry \<Rightarrow> bool \<Rightarrow> string option" where
  "pprint_title env e short =
     (let date_str = strftime env (timeformat (journal_config e)) (date e)
      in if \<not> short \<and> linewrap (journal_config e) \<noteq> 0
         then textwrap_fill env (date_str @ '' '' @ title e) (linewrap (journal_config e)) [] [] True
         else Some (date_str @ '' '' @ rstrip [NL, CHR '' ''] (title e)))"

definition pprint_body :: "env \<Rightarrow> entry \<Rightarrow> bool \<Rightarrow> string option" where
  "pprint_body env e short =
     (if \<not> short \<and> linewrap (journal_config e) \<noteq> 0
      then map_option (join [NL])
             (those
                (map (\<lambda>line. textwrap_fill env (if length line = 0 then line @ '' '' else line)
                               (linewrap (journal_config e)) ''| '' ''| '' False)
                     (splitlines (rstrip [CHR '' '', NL] (body e)))))
      else Some (rstrip [NL, CHR '' ''] (body e)))"

definition pprint :: "env \<Rightarrow> entry \<Rightarrow> bool \<Rightarrow> string option" where
  "pprint env e short =
     (case pprint_title env e short of
        None \<Rightarrow> None
      | Some title' \<Rightarrow>
          (case pprint_body env e short of
             None \<Rightarrow> None
           | Some body' \<Rightarrow>
               Some (if short then title'
                     else title'
                          @ (if has_body e then [NL] else [])
                          @ (if has_body e then body' else [])
                          @ [NL])))"

text \<open>\<open>Entry.to_dict\<close>, keys in the order the dict literal gives them.\<close>

definition entry_to_dict :: "env \<Rightarrow> entry \<Rightarrow> (string \<times> jval) list" where
  "entry_to_dict env e =
     [(''title'', JStr (title e)),
      (''body'', JStr (body e)),
      (''date'', JStr (strftime env ''%Y-%m-%d'' (date e))),
      (''time'', JStr (strftime env ''%H:%M'' (date e))),
      (''todos'', JList (map todo_to_dict (todos e))),
      (''starred'', JBool (starred e))]"

text \<open>\<open>Entry.to_md\<close>.\<close>

definition entry_to_md :: "env \<Rightarrow> entry \<Rightarrow> string" where
  "entry_to_md env e =
     (let date_str = strftime env (timeformat (journal_config e)) (date e);
          body_wrapper = (if body e \<noteq> [] then [NL, NL] else []);
          body' = body_wrapper @ body e
      in ''###'' @ '' '' @ date_str @ '', '' @ title e @ '' '' @ body' @ '' '' @ [NL])"

section \<open>Exporters\<close>

text \<open>
  \<open>get_tags_count\<close>. A Python set has no duplicates and no order of its own; it is kept as
  a duplicate-free list, and only order-independent facts are stated about it.
\<close>

definition all_entry_tags :: "journal \<Rightarrow> string list" where
  "all_entry_tags j = concat (map (\<lambda>entry. remdups (tags entry)) (entries j))"

definition get_tags_count :: "journal \<Rightarrow> (nat \<times> string) list" where
  "get_tags_count j =
     (let tgs = all_entry_tags j
      in remdups (map (\<lambda>tag. (count_list tgs tag, tag)) tgs))"

text \<open>\<open>"{0:20} : {1}".format(tag, n)\<close>: the tag left-aligned in a field of 20.\<close>

definition tag_line :: "string \<Rightarrow> nat \<Rightarrow> string" where
  "tag_line tag n = tag @ replicate (20 - length tag) CHR '' '' @ '' : '' @ str_nat n"

definition to_tag_list :: "journal \<Rightarrow> string" where
  "to_tag_list j =
     (let tag_counts = get_tags_count j
      in if tag_counts = [] then ''[No tags found in journal.]''
         else if fst (Min (set tag_counts)) = 0
         then ''[Removed tags that appear only once.]'' @ [NL]
              @ join [NL] (map (\<lambda>(n, tag). tag_line tag n)
                             (rev (sort (filter (\<lambda>x. fst x > 1) tag_counts))))
         else join [NL] (map (\<lambda>(n, tag). tag_line tag n) (rev (sort tag_counts))))"

definition get_todos :: "journal \<Rightarrow> todo list" where
  "get_todos j = concat (map todos (entries j))"

definition appendable_header :: "string \<Rightarrow> string" where
  "appendable_header text' =
     (let separator = replicate (length text') CHR ''=''
      in separator @ [NL] @ text' @ [NL] @ separator @ [NL])"

definition appendable_todo_list :: "todo list \<Rightarrow> string" where
  "appendable_todo_list todo_list = join [NL] (map to_item_format todo_list)"

definition to_todo_list :: "journal \<Rightarrow> string" where
  "to_todo_list j =
     (let tds = get_todos j
      in if tds = [] then ''[No todos found in journal.]''
         else (let pending_todos = filter (\<lambda>t. \<not> is_complete t) tds;
                   completed_todos = filter is_complete tds
               in appendable_header ''Pending''
                  @ appendable_todo_list pending_todos
                  @ [NL, NL] @ appendable_header ''Completed''
                  @ appendable_todo_list completed_todos))"

text \<open>
  \<open>to_json\<close>. \<open>dict(...)\<close> over pairs stores each pair in turn, a later one replacing an
  earlier one with the same key; the loop numbers the entries from 1.
\<close>

definition py_dict :: "(string \<times> jval) list \<Rightarrow> (string \<times> jval) list" where
  "py_dict pairs = foldl (\<lambda>d (k, v). AList.update k v d) [] pairs"

fun entry_dicts_from :: "env \<Rightarrow> nat \<Rightarrow> entry list \<Rightarrow> jval list" where
  "entry_dicts_from env entry_id [] = []"
| "entry_dicts_from env entry_id (e # es) =
     JDict (AList.update ''id'' (JInt (int entry_id)) (entry_to_dict env e))
     # entry_dicts_from env (entry_id + 1) es"

definition to_json_result :: "env \<Rightarrow> journal \<Rightarrow> jval" where
  "to_json_result env j =
     JDict [(''tags'', JDict (py_dict (map (\<lambda>(count, tag). (tag, JInt (int count))) (get_tags_count j)))),
            (''todos'', JList (map todo_to_dict (get_todos j))),
            (''entries'', JList (entry_dicts_from env 1 (entries j)))]"

definition to_json :: "env \<Rightarrow> journal \<Rightarrow> string" where
  "to_json env j = dumps env (to_json_result env j)"

text \<open>
  \<open>to_md\<close>: the loop carries the year and month of the last heading, both \<open>-1\<close> at the
  start, and appends to \<open>out\<close>.
\<close>

fun to_md_loop :: "env \<Rightarrow> int \<Rightarrow> int \<Rightarrow> entry list \<Rightarrow> string list" where
  "to_md_loop env y m [] = []"
| "to_md_loop env y m (e # es) =
     (let new_year = (int (year (date e)) \<noteq> y);
          y' = (if new_year then int (year (date e)) else y);
          new_month = (int (month (date e)) \<noteq> m);
          m' = (if new_month then int (month (date e)) else m)
      in (if new_year
          then [str_nat (year (date e)),
                replicate (length (str_nat (year (date e)))) CHR ''='' @ [NL]]
          else [])
         @ (if new_month
            then [strftime env ''%B'' (date e),
                  replicate (length (strftime env ''%B'' (date e))) CHR ''-'' @ [NL]]
            else [])
         @ [entry_to_md env e]
         @ to_md_loop env y' m' es)"

definition to_md :: "env \<Rightarrow> journal \<Rightarrow> string" where
  "to_md env j = join [NL] (to_md_loop env (- 1) (- 1) (entries j))"

text \<open>
  Modelled from the spec: \<open>Journal.pprint\<close>, whose file is not among the sources. The spec
  gives it as the journal's full pretty-print: every entry, in journal order, through the
  entry's pretty-print, concatenated. It returns only if every entry's \<open>pprint\<close> does.
\<close>

definition journal_pprint :: "env \<Rightarrow> journal \<Rightarrow> string option" where
  "journal_pprint env j = map_option concat (those (map (\<lambda>e. pprint env e False) (entries j)))"

definition to_txt :: "env \<Rightarrow> journal \<Rightarrow> string option" where
  "to_txt env j = journal_pprint env j"

subsection \<open>Files\<close>

text \<open>
  The file system as the exporters see it: which paths are directories, the text of each
  file, and where the operating system refuses. \<open>codecs.open(path, "w", "utf-8")\<close> either
  raises \<open>IOError\<close> with that path as \<open>filename\<close> and the system's text as \<open>strerror\<close>,
  changing nothing, or leaves the file empty and open. Writing the content and closing the
  file (the content is flushed no later than that) either stores it or raises \<open>IOError\<close>
  with the system's text as \<open>strerror\<close> and no \<open>filename\<close>, the file holding whatever part
  got through.
\<close>

record filesystem =
  isdir :: "string \<Rightarrow> bool"
  files :: "string \<Rightarrow> string option"
  open_error :: "string \<Rightarrow> string option"
  write_error :: "string \<Rightarrow> string \<Rightarrow> (string \<times> string) option"

definition open_w :: "filesystem \<Rightarrow> string \<Rightarrow> unit outcome \<times> filesystem" where
  "open_w fs path =
     (case open_error fs path of
        Some strerror \<Rightarrow> (Raises (IOError (Some path) strerror), fs)
      | None \<Rightarrow> (Returns (), fs\<lparr>files := (files fs)(path \<mapsto> [])\<rparr>))"

definition write_close :: "filesystem \<Rightarrow> string \<Rightarrow> string \<Rightarrow> unit outcome \<times> filesystem" where
  "write_close fs path content =
     (case write_error fs path content of
        Some (strerror, kept) \<Rightarrow>
          (Raises (IOError None strerror), fs\<lparr>files := (files fs)(path \<mapsto> kept)\<rparr>)
      | None \<Rightarrow> (Returns (), fs\<lparr>files := (files fs)(path \<mapsto> content)\<rparr>))"

text \<open>\<open>with codecs.open(path, "w", "utf-8") as f: f.write(content)\<close>.\<close>

definition write_text :: "filesystem \<Rightarrow> string \<Rightarrow> string \<Rightarrow> unit outcome \<times> filesystem" where
  "write_text fs path content =
     (case open_w fs path of
        (Returns u, fs') \<Rightarrow> write_close fs' path content
      | (Raises x, fs') \<Rightarrow> (Raises x, fs')
      | (Unsupported, fs') \<Rightarrow> (Unsupported, fs'))"

text \<open>\<open>os.path.join\<close> of two components (POSIX).\<close>

definition path_join :: "string \<Rightarrow> string \<Rightarrow> string" where
  "path_join a b =
     (if b \<noteq> [] \<and> hd b = CHR ''/'' then b
      else if a = [] \<or> last a = CHR ''/'' then a @ b
      else a @ ''/'' @ b)"

text \<open>
  \<open>write_files\<close>. The file name is one \<open>strftime\<close> call on a format string that already
  holds the slug and the format name. \<open>content\<close> is assigned in one of three branches; with a
  format that takes none of them the file is opened first and the unassigned name is read
  inside the \<open>with\<close> block.
\<close>

definition make_filename :: "env \<Rightarrow> string \<Rightarrow> entry \<Rightarrow> string" where
  "make_filename env format e =
     strftime env (''%Y-%m-%d_'' @ slugify env (title e) @ ''.'' @ format) (date e)"

definition file_content :: "env \<Rightarrow> string \<Rightarrow> entry \<Rightarrow> string option" where
  "file_content env format e =
     (if format = ''json'' then Some (dumps env (JDict (entry_to_dict env e)) @ [NL])
      else if format \<in> set [''md'', ''markdown''] then Some (entry_to_md env e)
      else if format \<in> set [''txt'', ''text''] then Some (to_write_form env e)
      else None)"

fun write_files_loop ::
  "env \<Rightarrow> filesystem \<Rightarrow> string \<Rightarrow> string \<Rightarrow> entry list \<Rightarrow> unit outcome \<times> filesystem" where
  "write_files_loop env fs path format [] = (Returns (), fs)"
| "write_files_loop env fs path format (e # es) =
     (let full_path = path_join path (make_filename env format e)
      in case file_content env format e of
           None \<Rightarrow>
             (case open_w fs full_path of
                (Returns u, fs') \<Rightarrow> (Raises UnboundLocalError, fs')
              | (Raises x, fs') \<Rightarrow> (Raises x, fs')
              | (Unsupported, fs') \<Rightarrow> (Unsupported, fs'))
         | Some content \<Rightarrow>
             (case write_text fs full_path content of
                (Returns u, fs') \<Rightarrow> write_files_loop env fs' path format es
              | (Raises x, fs') \<Rightarrow> (Raises x, fs')
              | (Unsupported, fs') \<Rightarrow> (Unsupported, fs')))"

definition write_files ::
  "env \<Rightarrow> filesystem \<Rightarrow> journal \<Rightarrow> string \<Rightarrow> string \<Rightarrow> string outcome \<times> filesystem" where
  "write_files env fs j path format =
     (case write_files_loop env fs path format (entries j) of
        (Returns u, fs') \<Rightarrow> (Returns (''[Journal exported individual files in '' @ path @ '']''), fs')
      | (Raises x, fs') \<Rightarrow> (Raises x, fs')
      | (Unsupported, fs') \<Rightarrow> (Unsupported, fs'))"

text \<open>
  \<open>export\<close>. An \<open>output\<close> of \<open>None\<close> or of the empty string is falsy. The content is
  rendered before the file is opened, so a rendering that does not return keeps \<open>export\<close>
  from returning: the result \<open>None\<close>. The handler formats \<open>e.filename\<close> and \<open>e.strerror\<close>
  with \<open>str.format\<close>, which prints a missing file name as \<open>None\<close>.
\<close>

definition export_maps :: "env \<Rightarrow> (string \<times> (journal \<Rightarrow> string option)) list" where
  "export_maps env =
     [(''json'', \<lambda>j. Some (to_json env j)),
      (''txt'', to_txt env),
      (''text'', to_txt env),
      (''md'', \<lambda>j. Some (to_md env j)),
      (''markdown'', \<lambda>j. Some (to_md env j))]"

definition truthy :: "string option \<Rightarrow> bool" where
  "truthy output = (case output of None \<Rightarrow> False | Some p \<Rightarrow> p \<noteq> [])"

definition format_arg :: "string option \<Rightarrow> string" where
  "format_arg a = (case a of None \<Rightarrow> ''None'' | Some text' \<Rightarrow> text')"

abbreviation APOS :: char where
  "APOS \<equiv> CHR 0x27"

definition export ::
  "env \<Rightarrow> filesystem \<Rightarrow> journal \<Rightarrow> string \<Rightarrow> string option
     \<Rightarrow> (string outcome \<times> filesystem) option" where
  "export env fs j format output =
     (case map_of (export_maps env) format of
        None \<Rightarrow>
          Some (Returns (''[ERROR: can'' @ [APOS] @ ''t export to '' @ [APOS] @ format @ [APOS]
                         @ ''. Valid options are '' @ [APOS] @ ''md'' @ [APOS] @ '', ''
                         @ [APOS] @ ''txt'' @ [APOS] @ '', and '' @ [APOS] @ ''json'' @ [APOS] @ '']''),
                fs)
      | Some render \<Rightarrow>
          if truthy output \<and> isdir fs (the output)
          then Some (write_files env fs j (the output) format)
          else (case render j of
                  None \<Rightarrow> None
                | Some content \<Rightarrow>
                    Some (if truthy output
                          then (case write_text fs (the output) content of
                                  (Returns u, fs') \<Rightarrow>
                                    (Returns (''[Journal exported to '' @ the output @ '']''), fs')
                                | (Raises (IOError filename strerror), fs') \<Rightarrow>
                                    (Returns (''[ERROR: '' @ format_arg filename @ '' '' @ strerror
                                              @ '']''), fs')
                                | (Raises x, fs') \<Rightarrow> (Raises x, fs')
                                | (Unsupported, fs') \<Rightarrow> (Unsupported, fs'))
                          else (Returns content, fs))))"

section \<open>An environment for worked examples\<close>

text \<open>
  The general theorems below hold for every environment. Closed examples need one: the
  ASCII part of the Unicode tables (lower-casing, the whitespace of \<open>\s\<close> and \<open>str.strip\<close>,
  the word characters of \<open>\w\<close>), and chunk splitting into runs of whitespace and of other
  characters, which is what \<open>wordsep_re\<close> gives on text without hyphens or dashes. The other
  components are stand-ins: a slug that lower-cases and turns every other character into a
  hyphen, no todos, an empty text for \<open>json.dumps\<close>, and a date formatter for the
  directives of the examples.
\<close>

definition ascii_lower :: "char \<Rightarrow> char" where
  "ascii_lower c =
     (case map_of (zip ''ABCDEFGHIJKLMNOPQRSTUVWXYZ'' ''abcdefghijklmnopqrstuvwxyz'') c of
        Some l \<Rightarrow> l
      | None \<Rightarrow> c)"

definition ascii_space :: "char \<Rightarrow> bool" where
  "ascii_space c =
     (c \<in> set [CHR '' '', CHR 0x09, NL, CHR 0x0B, CHR 0x0C, CHR 0x0D,
               CHR 0x1C, CHR 0x1D, CHR 0x1E, CHR 0x1F])"

definition ascii_word :: "char \<Rightarrow> bool" where
  "ascii_word c =
     (c \<in> set ''abcdefghijklmnopqrstuvwxyzABCDEFGHIJKLMNOPQRSTUVWXYZ0123456789_'')"

fun group_runs :: "(char \<Rightarrow> bool) \<Rightarrow> string \<Rightarrow> string list" where
  "group_runs P [] = []"
| "group_runs P (c # cs) =
     (case group_runs P cs of
        [] \<Rightarrow> [[c]]
      | g # gs \<Rightarrow> if P c = P (hd g) then (c # g) # gs else [c] # g # gs)"

text \<open>
  The date formatter of the examples: ordinary characters are copied; \<open>%m %d %H %M %S\<close> are
  two digits, \<open>%Y\<close> is the year in decimal digits, \<open>%B\<close> the English month name and \<open>%%\<close> a
  percent sign. The examples use no other directive.
\<close>

definition zfill :: "nat \<Rightarrow> string \<Rightarrow> string" where
  "zfill w s = replicate (w - length s) CHR ''0'' @ s"

definition month_name :: "nat \<Rightarrow> string" where
  "month_name m =
     (if 1 \<le> m \<and> m \<le> 12
      then [''January'', ''February'', ''March'', ''April'', ''May'', ''June'', ''July'',
            ''August'', ''September'', ''October'', ''November'', ''December''] ! (m - 1)
      else [])"

definition example_directive :: "char \<Rightarrow> datetime \<Rightarrow> string" where
  "example_directive x d =
     (if x = CHR ''Y'' then str_nat (year d)
      else if x = CHR ''m'' then zfill 2 (str_nat (month d))
      else if x = CHR ''d'' then zfill 2 (str_nat (day d))
      else if x = CHR ''H'' then zfill 2 (str_nat (hour d))
      else if x = CHR ''M'' then zfill 2 (str_nat (minute d))
      else if x = CHR ''S'' then zfill 2 (str_nat (second d))
      else if x = CHR ''B'' then month_name (month d)
      else if x = CHR ''%'' then ''%''
      else [])"

fun example_strftime :: "string \<Rightarrow> datetime \<Rightarrow> string" where
  "example_strftime [] d = []"
| "example_strftime [c] d = [c]"
| "example_strftime (c # x # rest) d =
     (if c = CHR ''%'' then example_directive x d @ example_strftime rest d
      else c # example_strftime (x # rest) d)"

definition example_slugify :: "string \<Rightarrow> string" where
  "example_slugify s = map (\<lambda>c. if ascii_word c then ascii_lower c else CHR ''-'') s"

definition example_env :: env where
  "example_env =
     \<lparr>lower_char = ascii_lower,
      isspace = ascii_space,
      isword = ascii_word,
      wordsep_split = group_runs ascii_space,
      dumps = (\<lambda>v. []),
      now = \<lparr>year = 2023, month = 1, day = 1, hour = 0, minute = 0, second = 0\<rparr>,
      slugify = example_slugify,
      parse_entry_todos = (\<lambda>e. []),
      strftime = example_strftime\<rparr>"

definition example_config :: config where
  "example_config = \<lparr>tagsymbols = ''@'', timeformat = ''%Y-%m-%d %H:%M'', linewrap = 80\<rparr>"

text \<open>An entry as \<open>Entry.__init__\<close> leaves it when the text holds no tag and no todo.\<close>

definition example_entry :: "nat \<Rightarrow> nat \<Rightarrow> nat \<Rightarrow> string \<Rightarrow> string \<Rightarrow> entry" where
  "example_entry y m d title0 body0 =
     \<lparr>journal_config = example_config,
      date = \<lparr>year = y, month = m, day = d, hour = 9, minute = 30, second = 0\<rparr>,
      title = title0, body = body0, starred = False, tags = [], todos = [], modified = False\<rparr>"

text \<open>
  The Markdown grouping as the specification words it: going through the entries in journal
  order, an entry is preceded by a year heading when its year differs from the year of the
  entry right before it, and by a month heading when its month number differs from that
  entry's; the first entry has both. A heading is the text and, as the next section, its
  underline of the same length with a newline. The month's full name is what the directive
  \<open>%B\<close> of the date formatter prints.
\<close>

definition year_heading :: "entry \<Rightarrow> string list" where
  "year_heading e =
     [str_nat (year (date e)), replicate (length (str_nat (year (date e)))) CHR ''='' @ [NL]]"

definition month_heading :: "env \<Rightarrow> entry \<Rightarrow> string list" where
  "month_heading env e =
     [strftime env ''%B'' (date e), replicate (length (strftime env ''%B'' (date e))) CHR ''-'' @ [NL]]"

fun md_sections :: "env \<Rightarrow> entry option \<Rightarrow> entry list \<Rightarrow> string list" where
  "md_sections env prev [] = []"
| "md_sections env prev (e # es) =
     (if (case prev of None \<Rightarrow> True | Some p \<Rightarrow> year (date e) \<noteq> year (date p))
      then year_heading e else [])
     @ (if (case prev of None \<Rightarrow> True | Some p \<Rightarrow> month (date e) \<noteq> month (date p))
        then month_heading env e else [])
     @ [entry_to_md env e]
     @ md_sections env (Some e) es"

text \<open>
  A file system for worked examples: one directory, no files yet, one path that cannot be
  opened for writing, and the device \<open>/dev/full\<close>, which opens and takes no data.
\<close>

definition example_fs :: filesystem where
  "example_fs =
     \<lparr>isdir = (\<lambda>p. p = ''/tmp/out''),
      files = (\<lambda>p. None),
      open_error = (\<lambda>p. if p = ''/root/j.md'' then Some ''Permission denied'' else None),
      write_error = (\<lambda>p content. if p = ''/dev/full'' then Some (''No space left on device'', [])
                                else None)\<rparr>"

text \<open>What \<open>maps[format](journal)\<close> is for the five format names.\<close>

definition aggregated :: "env \<Rightarrow> string \<Rightarrow> journal \<Rightarrow> string option" where
  "aggregated env format j =
     (if format = ''json'' then Some (to_json env j)
      else if format \<in> set [''txt'', ''text''] then to_txt env j
      else Some (to_md env j))"

text \<open>Unfolding rules for evaluating the examples.\<close>

lemmas strftime_eval = example_directive_def zfill_def str_nat.simps digit_char_def month_name_def

lemmas example_eval = example_entry_def example_config_def example_env_def example_fs_def
  example_slugify_def ascii_lower_def ascii_space_def ascii_word_def

text \<open>The measure for the rounds of \<open>_wrap_chunks\<close>: all characters and all chunks.\<close>

definition weight :: "string list \<Rightarrow> nat" where
  "weight chunks = length (concat chunks) + length chunks"

section \<open>Canonical text\<close>

lemma rstrip_last: "rstrip cs s \<noteq> [] \<Longrightarrow> last (rstrip cs s) \<notin> set cs"
proof -
  assume ne: "rstrip cs s \<noteq> []"
  let ?d = "dropWhile (\<lambda>c. c \<in> set cs) (rev s)"
  from ne have d: "?d \<noteq> []" by (simp add: rstrip_def)
  then have "hd ?d \<notin> set cs" by (rule hd_dropWhile)
  moreover have "last (rstrip cs s) = hd ?d" using d by (simp add: rstrip_def last_rev)
  ultimately show ?thesis by simp
qed

lemma rstrip_idem: "rstrip cs (rstrip cs s) = rstrip cs s"
proof (cases "rstrip cs s = []")
  case True
  then show ?thesis by (simp add: rstrip_def)
next
  case False
  let ?d = "dropWhile (\<lambda>c. c \<in> set cs) (rev s)"
  from False have d: "?d \<noteq> []" by (simp add: rstrip_def)
  then have "hd ?d \<notin> set cs" by (rule hd_dropWhile)
  then have "dropWhile (\<lambda>c. c \<in> set cs) ?d = ?d" using d by (cases ?d) auto
  then show ?thesis by (simp add: rstrip_def)
qed

text \<open>
  An entry as \<open>Entry.__init__\<close> builds it holds title and body already stripped, so the
  stripping in the renderings changes nothing for it.
\<close>

lemma Entry_init_stripped:
  assumes "Entry_init env cfg date0 title0 body0 starred0 = Returns e"
  shows "title e = rstrip [NL, CHR '' ''] title0 \<and> body e = rstrip [NL, CHR '' ''] body0
         \<and> rstrip [NL, CHR '' ''] (title e) = title e \<and> rstrip [NL, CHR '' ''] (body e) = body e
         \<and> starred e = starred0"
proof -
  from assms have "title e = rstrip [NL, CHR '' ''] title0" "body e = rstrip [NL, CHR '' ''] body0"
      "starred e = starred0"
    by (auto simp: Entry_init_def parse_data_def parse_tags_def parse_todos_def Let_def
             split: outcome.splits)
  then show ?thesis by (simp add: rstrip_idem)
qed

text \<open>
  Claim C4. For every entry, the canonical write-back text is the formatted date, a space and
  the title (trailing newlines and spaces stripped), then \<open>" *"\<close> exactly when the entry is
  starred, then a newline and the stripped body exactly when the stripped body is not empty,
  then one newline. That newline is the only trailing one: what stands before it is not
  empty and does not end in a newline.
\<close>

theorem to_write_form_canonical:
  "to_write_form env e =
     strftime env (timeformat (journal_config e)) (date e) @ '' '' @ rstrip [NL, CHR '' ''] (title e)
     @ (if starred e then '' *'' else [])
     @ (if rstrip [NL, CHR '' ''] (body e) = [] then []
        else [NL] @ rstrip [NL, CHR '' ''] (body e))
     @ [NL]
   \<and> (\<exists>r. to_write_form env e = r @ [NL] \<and> r \<noteq> [] \<and> last r \<noteq> NL)"
proof
  show "to_write_form env e =
     strftime env (timeformat (journal_config e)) (date e) @ '' '' @ rstrip [NL, CHR '' ''] (title e)
     @ (if starred e then '' *'' else [])
     @ (if rstrip [NL, CHR '' ''] (body e) = [] then []
        else [NL] @ rstrip [NL, CHR '' ''] (body e))
     @ [NL]"
    by (simp add: to_write_form_def Let_def)
next
  let ?cs = "[NL, CHR '' '']"
  let ?d = "strftime env (timeformat (journal_config e)) (date e)"
  let ?t = "rstrip ?cs (title e)"
  let ?b = "rstrip ?cs (body e)"
  let ?head = "?d @ '' '' @ ?t @ (if starred e then '' *'' else [])"
  let ?r = "?head @ (if ?b = [] then [] else [NL] @ ?b)"
  have eq: "to_write_form env e = ?r @ [NL]"
    by (simp add: to_write_form_def Let_def)
  have ne: "?r \<noteq> []" by simp
  have head: "last ?head \<noteq> NL"
  proof (cases "starred e")
    case True
    then show ?thesis by simp
  next
    case False
    show ?thesis
    proof (cases "?t = []")
      case True
      with False show ?thesis by simp
    next
      case nt: False
      then have "last ?t \<notin> set ?cs" by (rule rstrip_last)
      with False nt show ?thesis by simp
    qed
  qed
  have "last ?r \<noteq> NL"
  proof (cases "?b = []")
    case True
    with head show ?thesis by simp
  next
    case False
    then have "last ?b \<notin> set ?cs" by (rule rstrip_last)
    with False show ?thesis by simp
  qed
  with eq ne show "\<exists>r. to_write_form env e = r @ [NL] \<and> r \<noteq> [] \<and> last r \<noteq> NL"
    by blast
qed

section \<open>Tag extraction\<close>

text \<open>
  A string of symbols in which no backslash occurs, \<open>]\<close> at most as the first character, \<open>^\<close>
  not as the first character and \<open>-\<close> only as the first or the last character is read as
  the plain set of its characters, with the tag class right behind it.
\<close>

lemma parse_set_plain:
  assumes "CHR 0x5C \<notin> set xs"
    and "CHR '']'' \<notin> set (if items = [] then tl xs else xs)"
    and "CHR ''-'' \<notin> set (butlast (tl xs))"
    and "xs \<noteq> [] \<or> items \<noteq> []"
  shows "parse_set items (xs @ CHR '']'' # rest) = Returns (items @ map Literal xs, rest)"
  using assms
proof (induction xs arbitrary: items rule: induct_list012)
  case 1
  then show ?case by simp
next
  case (2 x)
  then show ?case by (auto split: if_splits)
next
  case (3 x y zs)
  from 3(3) have x: "x \<noteq> CHR 0x5C" by auto
  from 3(4) have close: "\<not> (x = CHR '']'' \<and> items \<noteq> [])" by (auto split: if_splits)
  have member: "class_member (x # (y # zs) @ CHR '']'' # rest) = Returns (x, (y # zs) @ CHR '']'' # rest)"
    using x by simp
  show ?case
  proof (cases "y = CHR ''-''")
    case True
    with 3(5) have zs: "zs = []" by (cases zs) auto
    from True zs close member show ?thesis by simp
  next
    case False
    have a: "CHR 0x5C \<notin> set (y # zs)" using 3(3) by auto
    have b: "CHR '']'' \<notin> set (if items @ [Literal x] = [] then tl (y # zs) else y # zs)"
      using 3(4) by (auto split: if_splits)
    have c: "CHR ''-'' \<notin> set (butlast (tl (y # zs)))"
      using 3(5) by (cases zs) auto
    have "parse_set (items @ [Literal x]) ((y # zs) @ CHR '']'' # rest)
            = Returns ((items @ [Literal x]) @ map Literal (y # zs), rest)"
      by (rule 3(2)[OF a b c]) simp
    with False close member show ?thesis by simp
  qed
qed

lemma tag_regex_plain:
  assumes "S \<noteq> []" and "CHR 0x5C \<notin> set S" and "CHR '']'' \<notin> set (tl S)"
    and "hd S \<noteq> CHR ''^''" and "CHR ''-'' \<notin> set (butlast (tl S))"
  shows "tag_regex S = Returns (TagPattern False (map Literal S) [])"
proof -
  have "parse_set [] (S @ CHR '']'' # template_tail) = Returns ([] @ map Literal S, template_tail)"
    using assms by (intro parse_set_plain) simp_all
  with assms(1,4) show ?thesis
    by (simp add: tag_regex_def Let_def)
qed

lemma set_matches_plain: "set_matches (TagPattern False (map Literal S) []) c = (c \<in> set S)"
  by (induction S) (auto simp: set_matches_def)

lemma spec_tokens_skip: "\<not> isspace env c \<Longrightarrow> spec_tokens env S (c # xs) = spec_tokens env S xs"
  by (cases xs) auto

lemma spec_tokens_skip_run:
  "\<forall>c\<in>set pre. \<not> isspace env c \<Longrightarrow> spec_tokens env S (pre @ xs) = spec_tokens env S xs"
  by (induction pre) (auto simp: spec_tokens_skip)

lemma spec_tokens_skip_symbol:
  "x \<notin> set S \<Longrightarrow> spec_tokens env S (s # x # xs) = spec_tokens env S (x # xs)"
  by simp

text \<open>
  When the pattern's first set matches exactly the symbols of \<open>S\<close> and the tag class stands
  right behind it, scanning for non-overlapping matches finds every token of the
  specification's enumeration, provided no token can begin inside another: the symbols are
  all not whitespace, or all not tag characters.
\<close>

lemma findall_spec_tokens:
  assumes lits: "literals p = []"
    and exact: "\<forall>c. set_matches p c = (c \<in> set S)"
    and overlap: "(\<forall>c\<in>set S. \<not> isspace env c) \<or> (\<forall>c\<in>set S. \<not> tag_char env c)"
    and E: "\<forall>c. isspace env c \<longrightarrow> \<not> tag_char env c"
  shows "findall env p str = spec_tokens env S str"
  using assms
proof (induction env p str rule: findall.induct)
  case (1 env p)
  show ?case by simp
next
  case (2 env p c rest)
  note lits = 2(3) and exact = 2(4) and overlap = 2(5) and E = 2(6)
  show ?case
  proof (cases "match_here env p (c # rest)")
    case None
    then have "findall env p (c # rest) = spec_tokens env S rest"
      using 2(1)[OF None lits exact overlap E] by simp
    moreover from None have "spec_tokens env S (c # rest) = spec_tokens env S rest"
      using lits exact by (cases rest) (auto simp: Let_def split: if_splits)
    ultimately show ?thesis by simp
  next
    case (Some m)
    obtain tok remaining where m: "m = (tok, remaining)" by (cases m)
    from Some m obtain s r where rest: "rest = s # r"
      by (cases rest) auto
    from Some m rest lits exact
    have cond: "isspace env c" "s \<in> set S" "takeWhile (tag_char env) r \<noteq> []"
      and tok: "tok = s # takeWhile (tag_char env) r"
      and rem: "remaining = dropWhile (tag_char env) r"
      by (auto simp: Let_def split: if_splits)
    have IH: "findall env p remaining = spec_tokens env S remaining"
      using 2(2)[OF Some m[symmetric] lits exact overlap E] .
    have run: "\<forall>c\<in>set (takeWhile (tag_char env) r). \<not> isspace env c"
      using E by (auto dest: set_takeWhileD)
    have "spec_tokens env S r
          = spec_tokens env S (takeWhile (tag_char env) r @ dropWhile (tag_char env) r)"
      by simp
    also have "\<dots> = spec_tokens env S remaining"
      unfolding rem by (rule spec_tokens_skip_run[OF run])
    finally have r: "spec_tokens env S r = spec_tokens env S remaining" .
    have skip: "spec_tokens env S (s # r) = spec_tokens env S r"
    proof (cases "isspace env s")
      case False
      then show ?thesis by (rule spec_tokens_skip)
    next
      case True
      with cond(2) overlap have no: "\<forall>c\<in>set S. \<not> tag_char env c" by blast
      from cond(3) obtain x xs where r': "r = x # xs" and x: "tag_char env x"
        by (cases r) (auto split: if_splits)
      from no x have "x \<notin> set S" by blast
      then show ?thesis unfolding r' by (rule spec_tokens_skip_symbol)
    qed
    have "spec_tokens env S (c # rest) = tok # spec_tokens env S (s # r)"
      using cond rest tok by simp
    also have "\<dots> = tok # spec_tokens env S remaining"
      using skip r by simp
    finally show ?thesis using Some m IH by simp
  qed
qed

lemma spec_tokens_shape:
  "tok \<in> set (spec_tokens env S str) \<Longrightarrow>
     tok \<noteq> [] \<and> hd tok \<in> set S \<and> tl tok \<noteq> [] \<and> list_all (tag_char env) (tl tok)"
  by (induction env S str rule: spec_tokens.induct)
     (auto simp: list_all_iff split: if_splits dest: set_takeWhileD)

text \<open>
  Claim C1, amended. Let the configured \<open>tagsymbols\<close> be a string \<open>S\<close> that the regular
  expression reads as a set matching exactly the characters of \<open>S\<close>, with the tag class right
  behind it, and that does not hold both a whitespace character and a tag character
  (whitespace characters are never tag characters). Then tag extraction searches the
  lower-cased text \<open>" " + title + " " + body\<close> and stores, from left to right with
  duplicates, exactly the tokens that begin with a symbol of \<open>S\<close>, go on with one or more tag
  characters (word characters and \<open>-+*#/\<close>) and stand right after a whitespace character; an
  entry with empty title and body has no tags.
\<close>

theorem parse_tags_plain_symbols:
  assumes ts: "tagsymbols (journal_config e) = S"
    and re: "tag_regex S = Returns p"
    and lits: "literals p = []"
    and exact: "\<forall>c. set_matches p c = (c \<in> set S)"
    and overlap: "(\<forall>c\<in>set S. \<not> isspace env c) \<or> (\<forall>c\<in>set S. \<not> tag_char env c)"
    and disj: "\<forall>c. isspace env c \<longrightarrow> \<not> tag_char env c"
  shows "parse_tags env e
           = Returns (e\<lparr>tags := spec_tokens env S (map (lower_char env) ('' '' @ title e @ '' '' @ body e))\<rparr>)
         \<and> (\<forall>tok\<in>set (spec_tokens env S (map (lower_char env) ('' '' @ title e @ '' '' @ body e))).
                tok \<noteq> [] \<and> hd tok \<in> set S \<and> tl tok \<noteq> [] \<and> list_all (tag_char env) (tl tok))
         \<and> (title e = [] \<and> body e = [] \<longrightarrow> parse_tags env e = Returns (e\<lparr>tags := []\<rparr>))"
proof -
  let ?str = "map (lower_char env) ('' '' @ title e @ '' '' @ body e)"
  have ft: "get_fulltext env e True = ?str"
    by (simp add: get_fulltext_def)
  have main: "parse_tags env e = Returns (e\<lparr>tags := spec_tokens env S ?str\<rparr>)"
    by (simp add: parse_tags_def ts re ft findall_spec_tokens[OF lits exact overlap disj])
  have shape: "\<forall>tok\<in>set (spec_tokens env S ?str).
                tok \<noteq> [] \<and> hd tok \<in> set S \<and> tl tok \<noteq> [] \<and> list_all (tag_char env) (tl tok)"
    using spec_tokens_shape by blast
  have empty: "title e = [] \<and> body e = [] \<longrightarrow> parse_tags env e = Returns (e\<lparr>tags := []\<rparr>)"
    using main by simp
  from main shape empty show ?thesis by blast
qed

lemma example_env_disjoint: "\<forall>c. isspace example_env c \<longrightarrow> \<not> tag_char example_env c"
  by (auto simp: example_env_def tag_char_def ascii_space_def ascii_word_def)

theorem parse_tags_plain_symbols_witness:
  "parse_tags example_env
     ((example_entry 2023 1 5 ''Call @Bob re ^plan-b'' ''-x @bob again'')
        \<lparr>journal_config := example_config\<lparr>tagsymbols := ''@^-''\<rparr>\<rparr>)
     = Returns ((example_entry 2023 1 5 ''Call @Bob re ^plan-b'' ''-x @bob again'')
                  \<lparr>journal_config := example_config\<lparr>tagsymbols := ''@^-''\<rparr>,
                   tags := [''@bob'', ''^plan-b'', ''-x'', ''@bob'']\<rparr>)"
proof -
  let ?e = "(example_entry 2023 1 5 ''Call @Bob re ^plan-b'' ''-x @bob again'')
              \<lparr>journal_config := example_config\<lparr>tagsymbols := ''@^-''\<rparr>\<rparr>"
  let ?p = "TagPattern False [Literal CHR ''@'', Literal CHR ''^'', Literal CHR ''-''] []"
  have ts: "tagsymbols (journal_config ?e) = ''@^-''"
    by simp
  have re: "tag_regex ''@^-'' = Returns ?p"
    by (simp add: tag_regex_def template_tail_def special_char_def Let_def)
  have lits: "literals ?p = []"
    by simp
  have exact: "\<forall>c. set_matches ?p c = (c \<in> set ''@^-'')"
    by (auto simp: set_matches_def)
  have overlap: "(\<forall>c\<in>set ''@^-''. \<not> isspace example_env c) \<or> (\<forall>c\<in>set ''@^-''. \<not> tag_char example_env c)"
    by (simp add: example_env_def ascii_space_def)
  have ev: "spec_tokens example_env ''@^-'' (map (lower_char example_env) ('' '' @ title ?e @ '' '' @ body ?e))
              = [''@bob'', ''^plan-b'', ''-x'', ''@bob'']"
    by (simp add: example_eval tag_char_def)
  from parse_tags_plain_symbols[OF ts re lits exact overlap example_env_disjoint, THEN conjunct1] ev
  show ?thesis by simp
qed

text \<open>
  Claim C1 as stated fails for every other kind of symbol string. With \<open>tagsymbols = "^@"\<close>
  the set is negated: the title \<open>x1\<close> gives the tag \<open>x1\<close>, which begins with no configured
  symbol. With \<open>"a-c"\<close> the set is a range: the title \<open>b1\<close> gives the tag \<open>b1\<close>. With \<open>"@]"\<close>
  the bracket closes the set and has to follow the symbol in the text: the title \<open>@a\<close> has
  no tag. With a backslash before the \<open>@\<close> the backslash is no symbol: the title \<open>\a\<close> has
  no tag. With \<open>" #"\<close> and the title \<open>" #a"\<close> the only tag is \<open>" #a"\<close>; the token \<open>#a\<close> inside
  it, which also stands after whitespace and begins with a symbol, is not returned. With no
  symbol at all, or with the descending range \<open>"z-a"\<close>, compiling the pattern raises.
\<close>

theorem parse_tags_counterexample:
  "parse_tags example_env
      ((example_entry 2023 1 5 ''x1'' [])\<lparr>journal_config := example_config\<lparr>tagsymbols := ''^@''\<rparr>\<rparr>)
     = Returns ((example_entry 2023 1 5 ''x1'' [])
                  \<lparr>journal_config := example_config\<lparr>tagsymbols := ''^@''\<rparr>, tags := [''x1'']\<rparr>)
   \<and> CHR ''x'' \<notin> set ''^@''
   \<and> parse_tags example_env
      ((example_entry 2023 1 5 ''b1'' [])\<lparr>journal_config := example_config\<lparr>tagsymbols := ''a-c''\<rparr>\<rparr>)
     = Returns ((example_entry 2023 1 5 ''b1'' [])
                  \<lparr>journal_config := example_config\<lparr>tagsymbols := ''a-c''\<rparr>, tags := [''b1'']\<rparr>)
   \<and> CHR ''b'' \<notin> set ''a-c''
   \<and> parse_tags example_env
      ((example_entry 2023 1 5 ''@a'' [])\<lparr>journal_config := example_config\<lparr>tagsymbols := ''@]''\<rparr>\<rparr>)
     = Returns ((example_entry 2023 1 5 ''@a'' [])
                  \<lparr>journal_config := example_config\<lparr>tagsymbols := ''@]''\<rparr>, tags := []\<rparr>)
   \<and> spec_tokens example_env ''@]'' (map (lower_char example_env) ('' '' @ ''@a'' @ '' '' @ []))
       = [''@a'']
   \<and> parse_tags example_env
      ((example_entry 2023 1 5 [CHR 0x5C, CHR ''a''] [])
         \<lparr>journal_config := example_config\<lparr>tagsymbols := [CHR 0x5C, CHR ''@'']\<rparr>\<rparr>)
     = Returns ((example_entry 2023 1 5 [CHR 0x5C, CHR ''a''] [])
                  \<lparr>journal_config := example_config\<lparr>tagsymbols := [CHR 0x5C, CHR ''@'']\<rparr>, tags := []\<rparr>)
   \<and> spec_tokens example_env [CHR 0x5C, CHR ''@'']
        (map (lower_char example_env) ('' '' @ [CHR 0x5C, CHR ''a''] @ '' '' @ []))
       = [[CHR 0x5C, CHR ''a'']]
   \<and> parse_tags example_env
      ((example_entry 2023 1 5 '' #a'' [])\<lparr>journal_config := example_config\<lparr>tagsymbols := '' #''\<rparr>\<rparr>)
     = Returns ((example_entry 2023 1 5 '' #a'' [])
                  \<lparr>journal_config := example_config\<lparr>tagsymbols := '' #''\<rparr>, tags := ['' #a'']\<rparr>)
   \<and> spec_tokens example_env '' #'' (map (lower_char example_env) ('' '' @ '' #a'' @ '' '' @ []))
       = ['' #a'', ''#a'']
   \<and> parse_tags example_env
      ((example_entry 2023 1 5 ''@a'' [])\<lparr>journal_config := example_config\<lparr>tagsymbols := []\<rparr>\<rparr>)
     = Raises ReError
   \<and> parse_tags example_env
      ((example_entry 2023 1 5 ''@a'' [])\<lparr>journal_config := example_config\<lparr>tagsymbols := ''z-a''\<rparr>\<rparr>)
     = Raises ReError"
  by (simp add: example_eval tag_char_def parse_tags_def tag_regex_def template_tail_def
        special_char_def ascii_alnum_def set_matches_def get_fulltext_def Let_def)

section \<open>JSON export\<close>

lemma entry_dict_id:
  "AList.update ''id'' v (entry_to_dict env e) = entry_to_dict env e @ [(''id'', v)]"
  by (simp add: entry_to_dict_def)

lemma entry_dicts_from_index:
  "entry_dicts_from env n es
     = map (\<lambda>i. JDict (entry_to_dict env (es ! i) @ [(''id'', JInt (int (n + i)))])) [0..<length es]"
proof (induction es arbitrary: n)
  case Nil
  show ?case by simp
next
  case (Cons e es)
  have "[0..<length (e # es)] = 0 # map Suc [0..<length es]"
    by (simp add: upt_conv_Cons map_Suc_upt del: upt_Suc)
  then show ?case
    by (simp add: Cons.IH entry_dict_id o_def del: upt_Suc)
qed

lemma map_of_foldl_update:
  "map_of (foldl (\<lambda>d (k, v). AList.update k v d) d ps) = map_of d ++ map_of (rev ps)"
proof (induction ps arbitrary: d)
  case Nil
  show ?case by simp
next
  case (Cons p ps)
  obtain k v where p: "p = (k, v)" by (cases p)
  show ?case
    by (simp add: p Cons.IH update_conv' map_add_upd_left map_add_def fun_eq_iff split: option.splits)
qed

lemma distinct_foldl_update:
  "distinct (map fst d) \<Longrightarrow> distinct (map fst (foldl (\<lambda>d (k, v). AList.update k v d) d ps))"
proof (induction ps arbitrary: d)
  case Nil
  then show ?case by simp
next
  case (Cons p ps)
  obtain k v where p: "p = (k, v)" by (cases p)
  from Cons.prems have "distinct (map fst (AList.update k v d))"
    by (rule distinct_update)
  then show ?case by (simp add: p Cons.IH)
qed

lemma map_of_functional:
  "\<forall>p\<in>set ps. snd p = f (fst p) \<Longrightarrow>
     map_of ps k = (if k \<in> fst ` set ps then Some (f k) else None)"
  by (induction ps) (auto simp: rev_image_eqI)

lemma count_list_remdups: "count_list (remdups xs) x = (if x \<in> set xs then 1 else 0)"
  by (induction xs) auto

lemma count_all_entry_tags:
  "count_list (concat (map (\<lambda>entry. remdups (tags entry)) es)) t
     = length (filter (\<lambda>e. t \<in> set (tags e)) es)"
  by (induction es) (auto simp: count_list_remdups)

lemma set_all_entry_tags: "set (all_entry_tags j) = (\<Union>e\<in>set (entries j). set (tags e))"
  by (auto simp: all_entry_tags_def)

text \<open>
  Claim C2. The JSON export serialises one object with exactly the keys \<open>tags\<close>, \<open>todos\<close>
  and \<open>entries\<close>. \<open>tags\<close> is a dict with one key per tag of the journal, mapped to the number
  of entries whose tag list holds the tag at least once; \<open>todos\<close> lists the structured view of
  every todo of every entry in journal order; \<open>entries\<close> lists, in journal order, the
  structured view of each entry, the entry at index \<open>i\<close> with the further key \<open>id\<close> set to
  \<open>i + 1\<close>.
\<close>

theorem to_json_structure:
  "\<exists>tag_pairs.
     to_json env j
       = dumps env
           (JDict [(''tags'', JDict tag_pairs),
                   (''todos'', JList (map todo_to_dict (concat (map todos (entries j))))),
                   (''entries'',
                    JList (map (\<lambda>i. JDict (entry_to_dict env (entries j ! i) @ [(''id'', JInt (int i + 1))]))
                              [0..<length (entries j)]))])
     \<and> distinct (map fst tag_pairs)
     \<and> (\<forall>tag. map_of tag_pairs tag
                = (if \<exists>e\<in>set (entries j). tag \<in> set (tags e)
                   then Some (JInt (int (length (filter (\<lambda>e. tag \<in> set (tags e)) (entries j)))))
                   else None))"
proof -
  let ?tgs = "all_entry_tags j"
  let ?f = "\<lambda>tag. JInt (int (count_list ?tgs tag))"
  let ?ps = "map (\<lambda>(count, tag). (tag, JInt (int count))) (get_tags_count j)"
  let ?d = "py_dict ?ps"
  have fnl: "\<forall>p\<in>set (rev ?ps). snd p = ?f (fst p)"
    by (auto simp: get_tags_count_def Let_def)
  have keys: "fst ` set (rev ?ps) = set ?tgs"
    by (force simp: get_tags_count_def Let_def image_iff)
  have lookup: "map_of ?d tag = (if tag \<in> set ?tgs then Some (?f tag) else None)" for tag
    using map_of_functional[OF fnl, of tag] keys
    by (simp add: py_dict_def map_of_foldl_update)
  have count: "count_list ?tgs tag = length (filter (\<lambda>e. tag \<in> set (tags e)) (entries j))" for tag
    by (simp add: all_entry_tags_def count_all_entry_tags)
  have mem: "tag \<in> set ?tgs \<longleftrightarrow> (\<exists>e\<in>set (entries j). tag \<in> set (tags e))" for tag
    by (simp add: set_all_entry_tags)
  have dist: "distinct (map fst ?d)"
    unfolding py_dict_def by (rule distinct_foldl_update) simp
  have shape: "to_json env j
       = dumps env
           (JDict [(''tags'', JDict ?d),
                   (''todos'', JList (map todo_to_dict (concat (map todos (entries j))))),
                   (''entries'',
                    JList (map (\<lambda>i. JDict (entry_to_dict env (entries j ! i) @ [(''id'', JInt (int i + 1))]))
                              [0..<length (entries j)]))])"
    by (simp add: to_json_def to_json_result_def get_todos_def entry_dicts_from_index add.commute)
  from shape dist lookup count mem show ?thesis
    by (intro exI[of _ ?d]) simp
qed

section \<open>Markdown export\<close>

lemma to_md_loop_sections:
  "y = (case prev of None \<Rightarrow> - 1 | Some p \<Rightarrow> int (year (date p))) \<Longrightarrow>
   m = (case prev of None \<Rightarrow> - 1 | Some p \<Rightarrow> int (month (date p))) \<Longrightarrow>
   to_md_loop env y m es = md_sections env prev es"
proof (induction es arbitrary: y m prev)
  case Nil
  show ?case by simp
next
  case (Cons e es)
  have next_state: "to_md_loop env (int (year (date e))) (int (month (date e))) es
                      = md_sections env (Some e) es"
    by (rule Cons.IH) simp_all
  show ?case
  proof (cases prev)
    case None
    with Cons.prems next_state show ?thesis
      by (simp add: Let_def year_heading_def month_heading_def)
  next
    case (Some p)
    with Cons.prems next_state show ?thesis
      by (auto simp: Let_def year_heading_def month_heading_def)
  qed
qed

lemma str_nat_digit: "n < 10 \<Longrightarrow> length (str_nat n) = 1"
  by (simp add: str_nat.simps)

lemma str_nat_step: "10 \<le> n \<Longrightarrow> length (str_nat n) = Suc (length (str_nat (n div 10)))"
  by (subst str_nat.simps) simp

lemma str_nat_four: "1000 \<le> n \<Longrightarrow> n \<le> 9999 \<Longrightarrow> length (str_nat n) = 4"
proof -
  assume lo: "1000 \<le> n" and hi: "n \<le> 9999"
  have a: "length (str_nat n) = Suc (length (str_nat (n div 10)))"
    using lo by (intro str_nat_step) simp
  have b: "length (str_nat (n div 10)) = Suc (length (str_nat (n div 10 div 10)))"
    using lo by (intro str_nat_step) simp
  have c: "length (str_nat (n div 10 div 10)) = Suc (length (str_nat (n div 10 div 10 div 10)))"
    using lo by (intro str_nat_step) simp
  have d: "length (str_nat (n div 10 div 10 div 10)) = 1"
    using hi by (intro str_nat_digit) simp
  from a b c d show ?thesis by simp
qed

text \<open>
  Claim C3, amended. The Markdown export goes through the entries in journal order and joins
  its sections with single newlines. An entry gets a year heading, the year in decimal digits
  underlined with \<open>=\<close>, exactly when it is the first entry or its year differs from the year
  of the entry right before it; independently it gets a month heading, the month's full name
  underlined with \<open>-\<close>, exactly when it is the first entry or its month number differs from
  that entry's; the entry's Markdown block follows. The year heading has four digits for the
  years 1000 to 9999.
\<close>

theorem to_md_headings:
  "to_md env j = join [NL] (md_sections env None (entries j))
   \<and> (\<forall>e\<in>set (entries j). 1000 \<le> year (date e) \<and> year (date e) \<le> 9999
           \<longrightarrow> length (hd (year_heading e)) = 4)"
  using to_md_loop_sections[of "- 1" None "- 1" env "entries j"]
  by (simp add: to_md_def year_heading_def str_nat_four)

theorem to_md_headings_witness:
  "to_md example_env
         \<lparr>entries = [example_entry 2023 1 5 ''Walk'' ''Cold.'',
                       example_entry 2023 1 20 ''Read'' [],
                       example_entry 2023 2 1 ''Cook'' []]\<rparr>
     = join [NL]
         [''2023'', ''===='' @ [NL],
          ''January'', ''-------'' @ [NL],
          ''### 2023-01-05 09:30, Walk '' @ [NL, NL] @ ''Cold. '' @ [NL],
          ''### 2023-01-20 09:30, Read  '' @ [NL],
          ''February'', ''--------'' @ [NL],
          ''### 2023-02-01 09:30, Cook  '' @ [NL]]
   \<and> length (hd (year_heading (example_entry 2023 1 5 ''Walk'' ''Cold.''))) = 4"
proof -
  let ?j = "\<lparr>entries = [example_entry 2023 1 5 ''Walk'' ''Cold.'',
                       example_entry 2023 1 20 ''Read'' [],
                       example_entry 2023 2 1 ''Cook'' []]\<rparr>"
  have ev: "md_sections example_env None (entries ?j)
     = [''2023'', ''===='' @ [NL],
          ''January'', ''-------'' @ [NL],
          ''### 2023-01-05 09:30, Walk '' @ [NL, NL] @ ''Cold. '' @ [NL],
          ''### 2023-01-20 09:30, Read  '' @ [NL],
          ''February'', ''--------'' @ [NL],
          ''### 2023-02-01 09:30, Cook  '' @ [NL]]"
    by (simp add: year_heading_def month_heading_def entry_to_md_def example_eval strftime_eval)
  have yr: "1000 \<le> year (date (example_entry 2023 1 5 ''Walk'' ''Cold.''))
            \<and> year (date (example_entry 2023 1 5 ''Walk'' ''Cold.'')) \<le> 9999"
    by (simp add: example_entry_def)
  have mem: "example_entry 2023 1 5 ''Walk'' ''Cold.'' \<in> set (entries ?j)"
    by simp
  have a: "to_md example_env ?j = join [NL] (md_sections example_env None (entries ?j))"
    by (rule to_md_headings[of example_env ?j, THEN conjunct1])
  have b: "length (hd (year_heading (example_entry 2023 1 5 ''Walk'' ''Cold.''))) = 4"
    by (rule to_md_headings[of example_env ?j, THEN conjunct2, THEN bspec, OF mem, THEN mp, OF yr])
  from a[unfolded ev] b show ?thesis by (rule conjI)
qed

text \<open>
  Claim C3 as stated fails on the heading's width: \<open>to_md\<close> prints \<open>str(year)\<close>, so the export
  of an entry of the year 999 begins with the heading \<open>999\<close>, three digits, and its underline
  of three \<open>=\<close>.
\<close>

theorem to_md_counterexample:
  "take 8 (to_md example_env \<lparr>entries = [example_entry 999 1 5 ''Walk'' []]\<rparr>)
     = ''999'' @ [NL] @ ''==='' @ [NL]
   \<and> length ''999'' = 3"
  by (simp add: to_md_def example_entry_def str_nat.simps digit_char_def)

section \<open>Export: listings and the format check\<close>

text \<open>
  Claim C10. When no entry of the journal has a tag, the tag listing is exactly
  \<open>[No tags found in journal.]\<close>; when no entry has a todo, the todo listing is exactly
  \<open>[No todos found in journal.]\<close>.
\<close>

theorem empty_listings:
  "((\<forall>e\<in>set (entries j). tags e = []) \<longrightarrow> to_tag_list j = ''[No tags found in journal.]'')
   \<and> ((\<forall>e\<in>set (entries j). todos e = []) \<longrightarrow> to_todo_list j = ''[No todos found in journal.]'')"
proof (intro conjI impI)
  assume "\<forall>e\<in>set (entries j). tags e = []"
  then have "all_entry_tags j = []"
    by (simp add: all_entry_tags_def)
  then show "to_tag_list j = ''[No tags found in journal.]''"
    by (simp add: to_tag_list_def get_tags_count_def)
next
  assume "\<forall>e\<in>set (entries j). todos e = []"
  then have "get_todos j = []"
    by (simp add: get_todos_def)
  then show "to_todo_list j = ''[No todos found in journal.]''"
    by (simp add: to_todo_list_def)
qed

theorem empty_listings_witness:
  "to_tag_list \<lparr>entries = [example_entry 2023 1 5 ''Walk'' ''Cold.'', example_entry 2023 1 20 ''Read'' []]\<rparr>
     = ''[No tags found in journal.]''
   \<and> to_todo_list \<lparr>entries = [example_entry 2023 1 5 ''Walk'' ''Cold.'', example_entry 2023 1 20 ''Read'' []]\<rparr>
     = ''[No todos found in journal.]''"
proof -
  let ?j = "\<lparr>entries = [example_entry 2023 1 5 ''Walk'' ''Cold.'', example_entry 2023 1 20 ''Read'' []]\<rparr>"
  have a: "\<forall>e\<in>set (entries ?j). tags e = []"
    by (simp add: example_entry_def)
  have b: "\<forall>e\<in>set (entries ?j). todos e = []"
    by (simp add: example_entry_def)
  from empty_listings[of ?j, THEN conjunct1, THEN mp, OF a]
       empty_listings[of ?j, THEN conjunct2, THEN mp, OF b]
  show ?thesis by (rule conjI)
qed

lemma sublist_between: "ys = ps @ xs @ ss \<Longrightarrow> sublist xs ys"
  by (auto simp: sublist_def)

text \<open>
  Claim C8. For a format name outside \<open>json\<close>, \<open>txt\<close>, \<open>text\<close>, \<open>md\<close>, \<open>markdown\<close>, \<open>export\<close>
  returns, without raising and without touching a file, the message
  \<open>[ERROR: can't export to '<format>'. Valid options are 'md', 'txt', and 'json']\<close>, which
  holds the format name and the three valid options.
\<close>

theorem export_unknown_format:
  assumes "format \<notin> set [''json'', ''txt'', ''text'', ''md'', ''markdown'']"
  shows "\<exists>msg. export env fs j format output = Some (Returns msg, fs)
           \<and> msg = ''[ERROR: can'' @ [APOS] @ ''t export to '' @ [APOS] @ format @ [APOS]
                    @ ''. Valid options are '' @ [APOS] @ ''md'' @ [APOS] @ '', ''
                    @ [APOS] @ ''txt'' @ [APOS] @ '', and '' @ [APOS] @ ''json'' @ [APOS] @ '']''
           \<and> sublist format msg \<and> sublist ''md'' msg \<and> sublist ''txt'' msg \<and> sublist ''json'' msg"
proof -
  let ?pre = "''[ERROR: can'' @ [APOS] @ ''t export to '' @ [APOS]"
  let ?mid = "[APOS] @ ''. Valid options are '' @ [APOS]"
  let ?msg = "?pre @ format @ ?mid @ ''md'' @ [APOS] @ '', ''
                @ [APOS] @ ''txt'' @ [APOS] @ '', and '' @ [APOS] @ ''json'' @ [APOS] @ '']''"
  from assms have "map_of (export_maps env) format = None"
    by (simp add: export_maps_def)
  then have ex: "export env fs j format output = Some (Returns ?msg, fs)"
    by (simp add: export_def)
  have s1: "sublist format ?msg"
    by (rule sublist_between[of _ ?pre _ "?mid @ ''md'' @ [APOS] @ '', ''
                @ [APOS] @ ''txt'' @ [APOS] @ '', and '' @ [APOS] @ ''json'' @ [APOS] @ '']''"]) simp
  have s2: "sublist ''md'' ?msg"
    by (rule sublist_between[of _ "?pre @ format @ ?mid" _ "[APOS] @ '', ''
                @ [APOS] @ ''txt'' @ [APOS] @ '', and '' @ [APOS] @ ''json'' @ [APOS] @ '']''"]) simp
  have s3: "sublist ''txt'' ?msg"
    by (rule sublist_between[of _ "?pre @ format @ ?mid @ ''md'' @ [APOS] @ '', '' @ [APOS]" _
                "[APOS] @ '', and '' @ [APOS] @ ''json'' @ [APOS] @ '']''"]) simp
  have s4: "sublist ''json'' ?msg"
    by (rule sublist_between[of _ "?pre @ format @ ?mid @ ''md'' @ [APOS] @ '', '' @ [APOS]
                @ ''txt'' @ [APOS] @ '', and '' @ [APOS]" _ "[APOS] @ '']''"]) simp
  from ex s1 s2 s3 s4 show ?thesis by simp
qed

theorem export_unknown_format_witness:
  "\<exists>msg. export example_env example_fs \<lparr>entries = []\<rparr> ''pdf'' None = Some (Returns msg, example_fs)
     \<and> msg = ''[ERROR: can'' @ [APOS] @ ''t export to '' @ [APOS] @ ''pdf'' @ [APOS]
                    @ ''. Valid options are '' @ [APOS] @ ''md'' @ [APOS] @ '', ''
                    @ [APOS] @ ''txt'' @ [APOS] @ '', and '' @ [APOS] @ ''json'' @ [APOS] @ '']''
     \<and> sublist ''pdf'' msg \<and> sublist ''md'' msg \<and> sublist ''txt'' msg \<and> sublist ''json'' msg"
proof -
  have "''pdf'' \<notin> set [''json'', ''txt'', ''text'', ''md'', ''markdown'']"
    by simp
  then show ?thesis by (rule export_unknown_format)
qed

section \<open>Export to one file per entry\<close>

text \<open>
  The file name of an entry: the date as \<open>%Y-%m-%d\<close> prints it, an underscore, the slug, a
  dot and the format name as it was passed in, when the formatter copies what stands behind
  the three directives (as it does with text free of \<open>%\<close>).
\<close>

lemma make_filename_extension:
  assumes "strftime env (''%Y-%m-%d'' @ ''_'' @ slugify env (title e) @ ''.'' @ format) (date e)
             = strftime env ''%Y-%m-%d'' (date e) @ ''_'' @ slugify env (title e) @ ''.'' @ format"
  shows "make_filename env format e
           = strftime env ''%Y-%m-%d'' (date e) @ ''_'' @ slugify env (title e) @ ''.'' @ format"
  using assms by (simp add: make_filename_def)

lemma example_strftime_no_percent: "CHR ''%'' \<notin> set s \<Longrightarrow> example_strftime s d = s"
  by (induction s d rule: example_strftime.induct) auto

lemma example_strftime_copies:
  assumes "CHR ''%'' \<notin> set s"
  shows "strftime example_env (''%Y-%m-%d'' @ s) d = strftime example_env ''%Y-%m-%d'' d @ s"
proof (cases s)
  case Nil
  then show ?thesis by simp
next
  case (Cons c cs)
  with assms have "example_strftime (c # cs) d = c # cs"
    by (intro example_strftime_no_percent) simp
  with Cons show ?thesis
    by (simp add: example_env_def)
qed

text \<open>
  When every file can be opened and written, the per-entry export of a valid format writes,
  entry by entry in journal order, the entry's content to the entry's file name under the
  directory (a later entry with the same name replaces an earlier one) and returns the
  confirmation naming the directory.
\<close>

lemma file_content_valid:
  "format \<in> set [''json'', ''txt'', ''text'', ''md'', ''markdown''] \<Longrightarrow>
     file_content env format e
       = Some (if format = ''json'' then dumps env (JDict (entry_to_dict env e)) @ [NL]
               else if format \<in> set [''md'', ''markdown''] then entry_to_md env e
               else to_write_form env e)"
  by (auto simp: file_content_def)

lemma write_text_stores:
  "open_error fs p = None \<Longrightarrow> write_error fs p c = None \<Longrightarrow>
     write_text fs p c = (Returns (), fs\<lparr>files := (files fs)(p \<mapsto> c)\<rparr>)"
  by (simp add: write_text_def open_w_def write_close_def)

lemma write_files_loop_writes:
  assumes "\<forall>p. open_error fs p = None" and "\<forall>p c. write_error fs p c = None"
    and "format \<in> set [''json'', ''txt'', ''text'', ''md'', ''markdown'']"
  shows "write_files_loop env fs path format es
           = (Returns (),
              fs\<lparr>files := foldl (\<lambda>f e. f(path_join path (make_filename env format e)
                                            \<mapsto> the (file_content env format e)))
                               (files fs) es\<rparr>)"
  using assms(1,2)
proof (induction es arbitrary: fs)
  case Nil
  show ?case by simp
next
  case (Cons e es)
  let ?p = "path_join path (make_filename env format e)"
  let ?F = "\<lambda>f e. f(path_join path (make_filename env format e) \<mapsto> the (file_content env format e))"
  from file_content_valid[OF assms(3), of env e]
  obtain c where content: "file_content env format e = Some c" by blast
  let ?fs = "fs\<lparr>files := (files fs)(?p \<mapsto> c)\<rparr>"
  from Cons.prems have wr: "write_text fs ?p c = (Returns (), ?fs)"
    by (intro write_text_stores) simp_all
  have step: "write_files_loop env fs path format (e # es) = write_files_loop env ?fs path format es"
    by (simp add: Let_def content wr)
  from Cons.prems have "\<forall>p. open_error ?fs p = None" and "\<forall>p c. write_error ?fs p c = None"
    by simp_all
  from Cons.IH[OF this] have ih: "write_files_loop env ?fs path format es
           = (Returns (), ?fs\<lparr>files := foldl ?F (files ?fs) es\<rparr>)" .
  have fold: "foldl ?F (files fs) (e # es) = foldl ?F (files ?fs) es"
    by (simp add: content)
  have upd: "?fs\<lparr>files := foldl ?F (files ?fs) es\<rparr> = fs\<lparr>files := foldl ?F (files ?fs) es\<rparr>"
    by simp
  show ?case by (simp only: step ih fold upd)
qed

lemma write_files_writes_each_entry:
  assumes "\<forall>p. open_error fs p = None" and "\<forall>p c. write_error fs p c = None"
    and "format \<in> set [''json'', ''txt'', ''text'', ''md'', ''markdown'']"
  shows "write_files env fs j path format
           = (Returns (''[Journal exported individual files in '' @ path @ '']''),
              fs\<lparr>files := foldl (\<lambda>f e. f(path_join path (make_filename env format e)
                                            \<mapsto> the (file_content env format e)))
                               (files fs) (entries j)\<rparr>)"
  by (simp add: write_files_def write_files_loop_writes[OF assms])

text \<open>
  Claim C7 fails on the code for the two long format names. Exporting one entry dated
  2023-01-05 and titled \<open>Walk\<close> to the directory \<open>/tmp/out\<close> with the format \<open>markdown\<close> returns
  the confirmation and writes the entry's Markdown block, but to
  \<open>2023-01-05_walk.markdown\<close>: no file with the extension \<open>md\<close> exists afterwards. The format
  \<open>text\<close> likewise writes \<open>2023-01-05_walk.text\<close>.
\<close>

theorem write_files_extension_is_format_name:
  "map_option fst
     (export example_env example_fs \<lparr>entries = [example_entry 2023 1 5 ''Walk'' ''Cold.'']\<rparr>
        ''markdown'' (Some ''/tmp/out''))
     = Some (Returns ''[Journal exported individual files in /tmp/out]'')
   \<and> map_option (\<lambda>r. files (snd r) ''/tmp/out/2023-01-05_walk.markdown'')
       (export example_env example_fs \<lparr>entries = [example_entry 2023 1 5 ''Walk'' ''Cold.'']\<rparr>
          ''markdown'' (Some ''/tmp/out''))
     = Some (Some (entry_to_md example_env (example_entry 2023 1 5 ''Walk'' ''Cold.'')))
   \<and> map_option (\<lambda>r. files (snd r) ''/tmp/out/2023-01-05_walk.md'')
       (export example_env example_fs \<lparr>entries = [example_entry 2023 1 5 ''Walk'' ''Cold.'']\<rparr>
          ''markdown'' (Some ''/tmp/out''))
     = Some None
   \<and> map_option (\<lambda>r. files (snd r) ''/tmp/out/2023-01-05_walk.text'')
       (export example_env example_fs \<lparr>entries = [example_entry 2023 1 5 ''Walk'' ''Cold.'']\<rparr>
          ''text'' (Some ''/tmp/out''))
     = Some (Some (to_write_form example_env (example_entry 2023 1 5 ''Walk'' ''Cold.'')))
   \<and> map_option (\<lambda>r. files (snd r) ''/tmp/out/2023-01-05_walk.txt'')
       (export example_env example_fs \<lparr>entries = [example_entry 2023 1 5 ''Walk'' ''Cold.'']\<rparr>
          ''text'' (Some ''/tmp/out''))
     = Some None"
  by (simp add: export_def export_maps_def truthy_def write_files_def file_content_def
        make_filename_def path_join_def write_text_def open_w_def write_close_def
        example_eval strftime_eval)

section \<open>Pretty-printing and word wrapping\<close>

lemma fit_chunks_negative:
  "width < 0 \<Longrightarrow> fit_chunks width [] chunks = ([], chunks)"
  by (cases chunks) auto

lemma wrap_round_stuck:
  assumes "w < length initial_indent" and "w < length subsequent_indent" and "chunks \<noteq> []"
  shows "snd (wrap_round env w initial_indent subsequent_indent False lines chunks) \<noteq> []"
proof -
  let ?indent = "if lines \<noteq> [] then subsequent_indent else initial_indent"
  let ?width = "int w - int (length ?indent)"
  from assms have neg: "?width < 0" by simp
  then have long: "int (length (hd chunks)) > ?width" by linarith
  show ?thesis
    using assms(3) long fit_chunks_negative[OF neg]
    by (simp add: wrap_round_def Let_def handle_long_word_def)
qed

lemma wrap_chunks_never_returns:
  assumes "wrap_chunks env w initial_indent subsequent_indent drop_whitespace lines chunks = Some r"
  shows "w < length initial_indent \<and> w < length subsequent_indent \<and> \<not> drop_whitespace
           \<longrightarrow> chunks = []"
proof (rule wrap_chunks.raw_induct
         [where P = "\<lambda>env w ii si dw lines chunks r.
                       w < length ii \<and> w < length si \<and> \<not> dw \<longrightarrow> chunks = []",
          OF _ assms])
  fix loop env w ii si dw lines chunks r
  assume IH: "\<And>env w ii si dw lines chunks r.
                loop env w ii si dw lines chunks = Some r \<Longrightarrow>
                w < length ii \<and> w < length si \<and> \<not> dw \<longrightarrow> chunks = []"
    and step: "(if chunks = [] then Some lines
                else loop env w ii si dw (fst (wrap_round env w ii si dw lines chunks))
                       (snd (wrap_round env w ii si dw lines chunks))) = Some r"
  show "w < length ii \<and> w < length si \<and> \<not> dw \<longrightarrow> chunks = []"
  proof (intro impI, rule ccontr)
    assume bad: "w < length ii \<and> w < length si \<and> \<not> dw" and ne: "chunks \<noteq> []"
    then have stuck: "snd (wrap_round env w ii si dw lines chunks) \<noteq> []"
      using wrap_round_stuck[of w ii si chunks env lines] by simp
    from ne step have "loop env w ii si dw (fst (wrap_round env w ii si dw lines chunks))
                         (snd (wrap_round env w ii si dw lines chunks)) = Some r"
      by simp
    from IH[OF this] bad stuck show False by simp
  qed
qed

lemma wrap_chunks_diverges:
  assumes "w < length initial_indent" and "w < length subsequent_indent" and "chunks \<noteq> []"
  shows "wrap_chunks env w initial_indent subsequent_indent False lines chunks = None"
proof (cases "wrap_chunks env w initial_indent subsequent_indent False lines chunks")
  case None
  then show ?thesis .
next
  case (Some r)
  from wrap_chunks_never_returns[OF Some] assms show ?thesis by simp
qed

lemma textwrap_fill_diverges:
  assumes "w < length indent" and "wordsep_split env (munge_whitespace line) \<noteq> []"
  shows "textwrap_fill env line w indent indent False = None"
  using wrap_chunks_diverges[OF assms(1) assms(1) assms(2)]
  by (simp add: textwrap_fill_def)

text \<open>
  With \<open>linewrap = 1\<close> the width left beside the two-character prefix is negative. Every
  chunk is then too long for every line, the loop moves one character at a time onto a
  line of its own and leaves the emptied chunk in the list, which it can never take off:
  a full \<open>pprint\<close> of an entry whose body has a line does not return.
\<close>

lemma pprint_linewrap_1:
  assumes lw: "linewrap (journal_config e) = 1"
    and lines: "splitlines (rstrip [CHR '' '', NL] (body e)) \<noteq> []"
    and chunks: "\<forall>s. s \<noteq> [] \<longrightarrow> wordsep_split env s \<noteq> []"
  shows "pprint env e False = None"
proof -
  obtain line rest where ls: "splitlines (rstrip [CHR '' '', NL] (body e)) = line # rest"
    using lines by (cases "splitlines (rstrip [CHR '' '', NL] (body e))") auto
  let ?line = "if length line = 0 then line @ '' '' else line"
  have "?line \<noteq> []" by simp
  then have "munge_whitespace ?line \<noteq> []"
    by (cases ?line) (auto simp: munge_whitespace_def)
  with chunks have "wordsep_split env (munge_whitespace ?line) \<noteq> []" by blast
  then have "textwrap_fill env ?line 1 ''| '' ''| '' False = None"
    by (intro textwrap_fill_diverges) simp
  then have "pprint_body env e False = None"
    by (simp add: pprint_body_def lw ls)
  then show ?thesis
    by (simp add: pprint_def split: option.splits)
qed

text \<open>
  When the width is at least the length of both indents, \<open>_wrap_chunks\<close> ends: every round
  takes a chunk off the list or shortens the first one, so the weight of the list goes down.
\<close>

lemma fit_chunks_split:
  "fit_chunks width cur cs = (cur', rest) \<Longrightarrow> \<exists>taken. cur' = cur @ taken \<and> cs = taken @ rest"
proof (induction cs arbitrary: cur)
  case Nil
  then show ?case by simp
next
  case (Cons c cs)
  show ?case
  proof (cases "int (length (concat cur)) + int (length c) \<le> width")
    case True
    with Cons.prems have "fit_chunks width (cur @ [c]) cs = (cur', rest)" by simp
    from Cons.IH[OF this] obtain taken where "cur' = (cur @ [c]) @ taken" "cs = taken @ rest"
      by blast
    then have "cur' = cur @ (c # taken) \<and> c # cs = (c # taken) @ rest" by simp
    then show ?thesis by blast
  next
    case False
    with Cons.prems show ?thesis by simp
  qed
qed

lemma fit_chunks_stop:
  "fit_chunks width cur cs = (cur', rest) \<Longrightarrow> rest \<noteq> [] \<Longrightarrow>
     \<not> int (length (concat cur')) + int (length (hd rest)) \<le> width"
proof (induction cs arbitrary: cur)
  case Nil
  then show ?case by simp
next
  case (Cons c cs)
  then show ?case
    by (cases "int (length (concat cur)) + int (length c) \<le> width") auto
qed

lemma fit_chunks_bound:
  "fit_chunks width cur cs = (cur', rest) \<Longrightarrow> int (length (concat cur)) \<le> width \<Longrightarrow>
     int (length (concat cur')) \<le> width"
proof (induction cs arbitrary: cur)
  case Nil
  then show ?case by simp
next
  case (Cons c cs)
  show ?case
  proof (cases "int (length (concat cur)) + int (length c) \<le> width")
    case True
    with Cons.prems have f: "fit_chunks width (cur @ [c]) cs = (cur', rest)" by simp
    from True have "int (length (concat (cur @ [c]))) \<le> width" by simp
    from Cons.IH[OF f this] show ?thesis .
  next
    case False
    with Cons.prems show ?thesis by simp
  qed
qed

lemma rfind_hyphen_less: "rfind_hyphen chunk n = Some h \<Longrightarrow> h < n"
proof -
  assume a: "rfind_hyphen chunk n = Some h"
  let ?is = "filter (\<lambda>i. chunk ! i = CHR ''-'') (rev [0..<min n (length chunk)])"
  from a obtain rest where "?is = h # rest"
    by (auto simp: rfind_hyphen_def split: list.splits)
  then have "h \<in> set ?is" by simp
  then show ?thesis by simp
qed

lemma handle_long_word_result:
  "chunks \<noteq> [] \<Longrightarrow> \<exists>cut. handle_long_word width cur_line chunks
       = (cur_line @ [take cut (hd chunks)], drop cut (hd chunks) # tl chunks)
     \<and> cut \<le> (if width < 1 then 1 else nat (width - int (length (concat cur_line))))
     \<and> (cur_line = [] \<and> 0 \<le> width \<longrightarrow> 1 \<le> cut)"
proof -
  let ?space = "if width < 1 then 1 else nat (width - int (length (concat cur_line)))"
  let ?chunk = "hd chunks"
  let ?cut = "if length ?chunk > ?space
                 then (case rfind_hyphen ?chunk ?space of
                         Some hyphen \<Rightarrow>
                           if hyphen > 0 \<and> list_ex (\<lambda>c. c \<noteq> CHR ''-'') (take hyphen ?chunk)
                           then hyphen + 1 else ?space
                       | None \<Rightarrow> ?space)
                 else ?space"
  have eq: "handle_long_word width cur_line chunks
       = (cur_line @ [take ?cut ?chunk], drop ?cut ?chunk # tl chunks)"
    by (simp add: handle_long_word_def Let_def)
  have le: "?cut \<le> ?space"
    by (auto split: option.splits dest: rfind_hyphen_less)
  have ge: "cur_line = [] \<and> 0 \<le> width \<longrightarrow> 1 \<le> ?cut"
    by (auto split: option.splits)
  from eq le ge show ?thesis by blast
qed

lemma weight_suffix: "weight rest \<le> weight (taken @ rest)"
  by (simp add: weight_def)

lemma weight_proper_suffix: "taken \<noteq> [] \<Longrightarrow> weight rest < weight (taken @ rest)"
  by (cases taken) (simp_all add: weight_def)

lemma weight_drop: "weight (drop k c # cs) \<le> weight (c # cs)"
  by (simp add: weight_def)

lemma weight_drop_less: "1 \<le> k \<Longrightarrow> c \<noteq> [] \<Longrightarrow> weight (drop k c # cs) < weight (c # cs)"
  by (cases c) (simp_all add: weight_def)

text \<open>What a round leaves in the chunk list, in terms of the inner loop's result.\<close>

lemma wrap_round_rest:
  assumes "fit_chunks (int w - int (length (if lines \<noteq> [] then subsequent_indent else initial_indent))) []
             (if drop_whitespace \<and> blank env (hd chunks) \<and> lines \<noteq> [] then tl chunks else chunks)
           = (cur, rest)"
  shows "snd (wrap_round env w initial_indent subsequent_indent drop_whitespace lines chunks)
         = (if rest \<noteq> []
               \<and> int (length (hd rest)) > int w - int (length (if lines \<noteq> [] then subsequent_indent else initial_indent))
            then snd (handle_long_word
                        (int w - int (length (if lines \<noteq> [] then subsequent_indent else initial_indent)))
                        cur rest)
            else rest)"
  using assms by (simp add: wrap_round_def Let_def split: prod.splits)

lemma wrap_round_weight:
  assumes ii: "length initial_indent \<le> w" and si: "length subsequent_indent \<le> w"
    and ne: "chunks \<noteq> []"
  shows "weight (snd (wrap_round env w initial_indent subsequent_indent drop_whitespace lines chunks))
           < weight chunks"
proof -
  let ?indent = "if lines \<noteq> [] then subsequent_indent else initial_indent"
  let ?width = "int w - int (length ?indent)"
  let ?chunks1 = "if drop_whitespace \<and> blank env (hd chunks) \<and> lines \<noteq> [] then tl chunks else chunks"
  let ?out = "snd (wrap_round env w initial_indent subsequent_indent drop_whitespace lines chunks)"
  from ii si have width: "0 \<le> ?width" by simp
  obtain cur rest where fit: "fit_chunks ?width [] ?chunks1 = (cur, rest)"
    by (cases "fit_chunks ?width [] ?chunks1")
  from fit_chunks_split[OF fit] have split: "?chunks1 = cur @ rest" by simp
  note out = wrap_round_rest[OF fit]
  have out_le: "weight ?out \<le> weight rest"
  proof (cases "rest \<noteq> [] \<and> int (length (hd rest)) > ?width")
    case True
    then obtain c cs where rest: "rest = c # cs" by (cases rest) auto
    from handle_long_word_result[of rest ?width cur] True obtain k
      where "handle_long_word ?width cur rest = (cur @ [take k (hd rest)], drop k (hd rest) # tl rest)"
      by blast
    with out True rest have "?out = drop k c # cs" by simp
    with rest weight_drop[of k c cs] show ?thesis by simp
  next
    case False
    with out show ?thesis by auto
  qed
  have first_le: "weight ?chunks1 \<le> weight chunks"
    using ne by (cases chunks) (simp_all add: weight_def)
  show ?thesis
  proof (cases "drop_whitespace \<and> blank env (hd chunks) \<and> lines \<noteq> []")
    case True
    with ne have "weight ?chunks1 < weight chunks"
      by (cases chunks) (simp_all add: weight_def)
    moreover from split have "weight rest \<le> weight ?chunks1"
      using weight_suffix[of rest cur] by simp
    ultimately show ?thesis using out_le by linarith
  next
    case keep: False
    then have c1: "?chunks1 = chunks" by auto
    show ?thesis
    proof (cases "cur = []")
      case False
      then have "weight rest < weight (cur @ rest)" by (rule weight_proper_suffix)
      with split c1 out_le show ?thesis by simp
    next
      case True
      with split c1 have rest: "rest = chunks" by simp
      with ne obtain c cs where ccs: "rest = c # cs" by (cases rest) auto
      from fit_chunks_stop[OF fit] ccs True have long: "int (length c) > ?width" by simp
      with width have cne: "c \<noteq> []" by auto
      from handle_long_word_result[of rest ?width cur] ccs True width obtain k
        where h: "handle_long_word ?width cur rest = (cur @ [take k (hd rest)], drop k (hd rest) # tl rest)"
          and k1: "1 \<le> k"
        by auto
      from out ccs long h have "?out = drop k c # cs" by simp
      with weight_drop_less[OF k1 cne, of cs] ccs rest show ?thesis by simp
    qed
  qed
qed

lemma wrap_chunks_returns:
  assumes ii: "length initial_indent \<le> w" and si: "length subsequent_indent \<le> w"
  shows "\<exists>r. wrap_chunks env w initial_indent subsequent_indent drop_whitespace lines chunks = Some r"
proof (induction "weight chunks" arbitrary: lines chunks rule: less_induct)
  case less
  show ?case
  proof (cases "chunks = []")
    case True
    then show ?thesis by (subst wrap_chunks.simps) simp
  next
    case False
    let ?r = "wrap_round env w initial_indent subsequent_indent drop_whitespace lines chunks"
    have "weight (snd ?r) < weight chunks"
      by (rule wrap_round_weight[OF ii si False])
    from less[OF this] obtain r
      where "wrap_chunks env w initial_indent subsequent_indent drop_whitespace (fst ?r) (snd ?r) = Some r"
      by blast
    with False show ?thesis by (subst wrap_chunks.simps) simp
  qed
qed

text \<open>
  With \<open>drop_whitespace\<close> off and one indent for all lines, every round adds exactly one
  line, the indent and the chunks it took, so nothing of the text is lost; the line's own
  part is never longer than the width left beside the indent, or one character when no
  width is left.
\<close>

lemma wrap_round_keep:
  assumes ne: "chunks \<noteq> []"
  shows "\<exists>piece rest. wrap_round env w indent indent False lines chunks = (lines @ [indent @ piece], rest)
           \<and> piece @ concat rest = concat chunks
           \<and> int (length piece) \<le> max 1 (int w - int (length indent))"
proof -
  let ?width = "int w - int (length indent)"
  obtain cur rest where fit: "fit_chunks ?width [] chunks = (cur, rest)"
    by (cases "fit_chunks ?width [] chunks")
  from fit_chunks_split[OF fit] have split: "chunks = cur @ rest" by simp
  show ?thesis
  proof (cases "rest \<noteq> [] \<and> int (length (hd rest)) > ?width")
    case True
    then obtain c cs where rest: "rest = c # cs" by (cases rest) auto
    from handle_long_word_result[of rest ?width cur] rest obtain k
      where h: "handle_long_word ?width cur rest = (cur @ [take k c], drop k c # cs)"
        and k: "k \<le> (if ?width < 1 then 1 else nat (?width - int (length (concat cur))))"
      by auto
    have round: "wrap_round env w indent indent False lines chunks
                   = (lines @ [indent @ concat (cur @ [take k c])], drop k c # cs)"
      using fit True h by (simp add: wrap_round_def Let_def)
    have keep: "concat (cur @ [take k c]) @ concat (drop k c # cs) = concat chunks"
      using split rest by simp
    have bound: "int (length (concat (cur @ [take k c]))) \<le> max 1 ?width"
    proof (cases "0 \<le> ?width")
      case True
      then have "int (length (concat cur)) \<le> ?width"
        using fit_chunks_bound[OF fit] by simp
      with k True show ?thesis by (cases "?width < 1") simp_all
    next
      case False
      then have "fit_chunks ?width [] chunks = ([], chunks)"
        by (intro fit_chunks_negative) simp
      with fit have "cur = []" by simp
      with k False show ?thesis by simp
    qed
    from round keep bound show ?thesis by blast
  next
    case False
    have "cur \<noteq> []"
    proof
      assume "cur = []"
      with split ne have "rest = chunks" "rest \<noteq> []" by simp_all
      with fit_chunks_stop[OF fit] \<open>cur = []\<close> False show False by simp
    qed
    then have round: "wrap_round env w indent indent False lines chunks
                        = (lines @ [indent @ concat cur], rest)"
      using fit False by (auto simp: wrap_round_def Let_def)
    have width: "0 \<le> ?width"
    proof (rule ccontr)
      assume "\<not> 0 \<le> ?width"
      then have "fit_chunks ?width [] chunks = ([], chunks)"
        by (intro fit_chunks_negative) simp
      with fit \<open>cur \<noteq> []\<close> show False by simp
    qed
    then have "int (length (concat cur)) \<le> ?width"
      using fit_chunks_bound[OF fit] by simp
    with round split show ?thesis by auto
  qed
qed

lemma wrap_chunks_keep:
  assumes ind: "length indent \<le> w"
  shows "\<exists>pieces. wrap_chunks env w indent indent False lines chunks
                      = Some (lines @ map ((@) indent) pieces)
           \<and> concat pieces = concat chunks
           \<and> (chunks \<noteq> [] \<longrightarrow> pieces \<noteq> [])
           \<and> (\<forall>p\<in>set pieces. int (length p) \<le> max 1 (int w - int (length indent)))"
proof (induction "weight chunks" arbitrary: lines chunks rule: less_induct)
  case less
  show ?case
  proof (cases "chunks = []")
    case True
    then have "wrap_chunks env w indent indent False lines chunks = Some (lines @ map ((@) indent) [])"
      by (subst wrap_chunks.simps) simp
    with True show ?thesis by (intro exI[of _ "[]"]) simp
  next
    case False
    from wrap_round_keep[OF False, of env w indent lines] obtain piece rest
      where round: "wrap_round env w indent indent False lines chunks = (lines @ [indent @ piece], rest)"
        and keep: "piece @ concat rest = concat chunks"
        and bound: "int (length piece) \<le> max 1 (int w - int (length indent))"
      by blast
    from wrap_round_weight[OF ind ind False, of env False lines] round
    have "weight rest < weight chunks" by simp
    from less[OF this, of "lines @ [indent @ piece]"] obtain pieces
      where loop: "wrap_chunks env w indent indent False (lines @ [indent @ piece]) rest
                     = Some ((lines @ [indent @ piece]) @ map ((@) indent) pieces)"
        and keep': "concat pieces = concat rest"
        and bound': "\<forall>p\<in>set pieces. int (length p) \<le> max 1 (int w - int (length indent))"
      by blast
    have "wrap_chunks env w indent indent False lines chunks
            = Some (lines @ map ((@) indent) (piece # pieces))"
      using False round loop by (subst wrap_chunks.simps) simp
    moreover have "concat (piece # pieces) = concat chunks"
      using keep keep' by simp
    moreover have "\<forall>p\<in>set (piece # pieces). int (length p) \<le> max 1 (int w - int (length indent))"
      using bound bound' by simp
    ultimately show ?thesis by (intro exI[of _ "piece # pieces"]) simp
  qed
qed

lemma munge_whitespace_nonempty: "line \<noteq> [] \<Longrightarrow> munge_whitespace line \<noteq> []"
  by (cases line) (auto simp: munge_whitespace_def)

lemma textwrap_fill_keep:
  assumes ind: "length indent \<le> w"
    and chunks: "concat (wordsep_split env (munge_whitespace line)) = munge_whitespace line"
  shows "\<exists>pieces. textwrap_fill env line w indent indent False
                      = Some (join [NL] (map ((@) indent) pieces))
           \<and> concat pieces = munge_whitespace line
           \<and> (line \<noteq> [] \<longrightarrow> pieces \<noteq> [])
           \<and> (\<forall>p\<in>set pieces. int (length p) \<le> max 1 (int w - int (length indent)))"
proof -
  let ?chunks = "wordsep_split env (munge_whitespace line)"
  from wrap_chunks_keep[OF ind, of env "[]" ?chunks] obtain pieces
    where loop: "wrap_chunks env w indent indent False [] ?chunks = Some ([] @ map ((@) indent) pieces)"
      and keep: "concat pieces = concat ?chunks"
      and ne: "?chunks \<noteq> [] \<longrightarrow> pieces \<noteq> []"
      and bound: "\<forall>p\<in>set pieces. int (length p) \<le> max 1 (int w - int (length indent))"
    by blast
  have "line \<noteq> [] \<longrightarrow> pieces \<noteq> []"
  proof
    assume "line \<noteq> []"
    then have "munge_whitespace line \<noteq> []" by (rule munge_whitespace_nonempty)
    with chunks have "?chunks \<noteq> []" by auto
    with ne show "pieces \<noteq> []" by simp
  qed
  moreover from loop have "textwrap_fill env line w indent indent False
                             = Some (join [NL] (map ((@) indent) pieces))"
    by (simp add: textwrap_fill_def)
  ultimately show ?thesis using keep chunks bound by (intro exI[of _ pieces]) simp
qed

lemma textwrap_fill_returns:
  assumes "length initial_indent \<le> w" and "length subsequent_indent \<le> w"
  shows "\<exists>r. textwrap_fill env line w initial_indent subsequent_indent drop_whitespace = Some r"
  using wrap_chunks_returns[OF assms, of env drop_whitespace "[]" "wordsep_split env (munge_whitespace line)"]
  by (auto simp: textwrap_fill_def)

lemma those_map_ex:
  "\<forall>x\<in>set xs. \<exists>y. f x = Some y \<and> Q x y \<Longrightarrow>
     \<exists>ys. those (map f xs) = Some ys \<and> list_all2 Q xs ys"
proof (induction xs)
  case Nil
  show ?case by simp
next
  case (Cons x xs)
  then obtain y ys where "f x = Some y" "Q x y" "those (map f xs) = Some ys" "list_all2 Q xs ys"
    by auto
  then show ?case by (intro exI[of _ "y # ys"]) simp
qed

subsection \<open>Pretty-printing for every line width but 1\<close>

lemma pprint_title_returns: "\<exists>t. pprint_title env e short = Some t"
proof (cases "\<not> short \<and> linewrap (journal_config e) \<noteq> 0")
  case True
  from textwrap_fill_returns[of "[]" "linewrap (journal_config e)" "[]" env _ True]
  obtain r where "textwrap_fill env
      (strftime env (timeformat (journal_config e)) (date e) @ '' '' @ title e)
      (linewrap (journal_config e)) [] [] True = Some r"
    by auto
  with True show ?thesis by (simp add: pprint_title_def)
next
  case False
  then show ?thesis by (auto simp: pprint_title_def)
qed

lemma pprint_body_returns:
  assumes "linewrap (journal_config e) \<noteq> 1"
  shows "\<exists>b. pprint_body env e short = Some b"
proof (cases "\<not> short \<and> linewrap (journal_config e) \<noteq> 0")
  case True
  with assms have w: "length ''| '' \<le> linewrap (journal_config e)" by simp
  let ?f = "\<lambda>line. textwrap_fill env (if length line = 0 then line @ '' '' else line)
                       (linewrap (journal_config e)) ''| '' ''| '' False"
  have "\<forall>line\<in>set (splitlines (rstrip [CHR '' '', NL] (body e))). \<exists>y. ?f line = Some y \<and> True"
    using textwrap_fill_returns[OF w w] by simp
  from those_map_ex[OF this] obtain ys
    where "those (map ?f (splitlines (rstrip [CHR '' '', NL] (body e)))) = Some ys"
    by blast
  with True show ?thesis by (simp add: pprint_body_def)
next
  case False
  then show ?thesis by (auto simp: pprint_body_def)
qed

text \<open>
  For every line width but 1 the full rendering returns: the title part, then a newline and
  the body part exactly when \<open>has_body\<close> holds, then a newline.
\<close>

lemma pprint_has_body:
  assumes "linewrap (journal_config e) \<noteq> 1"
  shows "\<exists>t b. pprint_title env e False = Some t \<and> pprint_body env e False = Some b
           \<and> pprint env e False = Some (t @ (if has_body e then [NL] @ b else []) @ [NL])"
proof -
  from pprint_title_returns obtain t where t: "pprint_title env e False = Some t" by blast
  from pprint_body_returns[OF assms] obtain b where b: "pprint_body env e False = Some b" by blast
  from t b show ?thesis by (simp add: pprint_def)
qed

lemma rstrip_all: "list_all (\<lambda>c. c \<in> set cs) s \<Longrightarrow> rstrip cs s = []"
  by (simp add: rstrip_def list_all_iff dropWhile_eq_Nil_conv)

text \<open>A body of blanks and newlines only, at most 20 of them, is left out at every width.\<close>

lemma pprint_blank_body:
  assumes "\<not> has_body e"
  shows "\<exists>t. pprint_title env e False = Some t \<and> pprint env e False = Some (t @ [NL])"
proof -
  from assms have "list_all (\<lambda>c. c \<in> set [CHR '' '', NL]) (body e)"
    by (simp add: has_body_def)
  then have "rstrip [CHR '' '', NL] (body e) = []"
    by (rule rstrip_all)
  then have "\<exists>b. pprint_body env e False = Some b"
    by (simp add: pprint_body_def splitlines_def)
  moreover from pprint_title_returns obtain t where "pprint_title env e False = Some t" by blast
  ultimately show ?thesis using assms by (auto simp: pprint_def)
qed

text \<open>The short rendering is the date and the stripped title, at every width.\<close>

lemma pprint_short:
  "pprint env e True
     = Some (strftime env (timeformat (journal_config e)) (date e) @ '' '' @ rstrip [NL, CHR '' ''] (title e))"
  by (simp add: pprint_def pprint_title_def pprint_body_def)

lemma list_all2_ex:
  "list_all2 (\<lambda>x y. \<exists>z. y = g z \<and> R x z) xs ys \<Longrightarrow> \<exists>zs. ys = map g zs \<and> list_all2 R xs zs"
proof (induction xs ys rule: list_all2_induct)
  case Nil
  show ?case by simp
next
  case (Cons x xs y ys)
  then obtain z zs where "y = g z" "R x z" "ys = map g zs" "list_all2 R xs zs"
    by blast
  then show ?case by (intro exI[of _ "z # zs"]) simp
qed

text \<open>
  From width 2 on, the body part is made line by line: each line of the stripped body (an
  empty one as a single blank) is cut into pieces, every piece is prefixed with \<open>"| "\<close>, and
  the pieces of a line put together give the line back with its whitespace characters
  turned into blanks and none dropped. The chunks are assumed to make up the text they
  were split from, as the pieces of a regular-expression split with one all-enclosing group
  do.
\<close>

lemma pprint_body_wrapped:
  assumes lw: "2 \<le> linewrap (journal_config e)"
    and chunks: "\<forall>s. concat (wordsep_split env s) = s"
  shows "\<exists>pss. pprint_body env e False
                  = Some (join [NL] (map (\<lambda>ps. join [NL] (map ((@) ''| '') ps)) pss))
           \<and> list_all2
                 (\<lambda>line ps. ps \<noteq> []
                    \<and> concat ps = munge_whitespace (if line = [] then '' '' else line)
                    \<and> (\<forall>p\<in>set ps. int (length p) \<le> max 1 (int (linewrap (journal_config e)) - 2)))
                 (splitlines (rstrip [CHR '' '', NL] (body e))) pss"
proof -
  let ?w = "linewrap (journal_config e)"
  let ?lines = "splitlines (rstrip [CHR '' '', NL] (body e))"
  let ?pad = "\<lambda>line. if length line = 0 then line @ '' '' else line"
  let ?f = "\<lambda>line. textwrap_fill env (?pad line) ?w ''| '' ''| '' False"
  let ?Q = "\<lambda>line out. \<exists>ps. out = join [NL] (map ((@) ''| '') ps) \<and> ps \<noteq> []
                    \<and> concat ps = munge_whitespace (if line = [] then '' '' else line)
                    \<and> (\<forall>p\<in>set ps. int (length p) \<le> max 1 (int ?w - 2))"
  from lw have w: "length ''| '' \<le> ?w" by simp
  have each: "\<forall>line\<in>set ?lines. \<exists>out. ?f line = Some out \<and> ?Q line out"
  proof
    fix line
    assume "line \<in> set ?lines"
    have pad: "?pad line \<noteq> []" by simp
    from chunks have c: "concat (wordsep_split env (munge_whitespace (?pad line))) = munge_whitespace (?pad line)"
      by blast
    from textwrap_fill_keep[OF w c] pad obtain ps
      where "?f line = Some (join [NL] (map ((@) ''| '') ps))"
        and "concat ps = munge_whitespace (?pad line)" and "ps \<noteq> []"
        and "\<forall>p\<in>set ps. int (length p) \<le> max 1 (int ?w - int (length ''| ''))"
      by blast
    then show "\<exists>out. ?f line = Some out \<and> ?Q line out"
      by (intro exI[of _ "join [NL] (map ((@) ''| '') ps)"]) auto
  qed
  from those_map_ex[OF each] obtain outs
    where outs: "those (map ?f ?lines) = Some outs" and all: "list_all2 ?Q ?lines outs"
    by blast
  from list_all2_ex[OF all] obtain pss
    where pss: "outs = map (\<lambda>ps. join [NL] (map ((@) ''| '') ps)) pss"
      and rel: "list_all2
                 (\<lambda>line ps. ps \<noteq> []
                    \<and> concat ps = munge_whitespace (if line = [] then '' '' else line)
                    \<and> (\<forall>p\<in>set ps. int (length p) \<le> max 1 (int ?w - 2)))
                 ?lines pss"
    by blast
  from lw outs pss have "pprint_body env e False
                  = Some (join [NL] (map (\<lambda>ps. join [NL] (map ((@) ''| '') ps)) pss))"
    by (simp add: pprint_body_def)
  with rel show ?thesis by blast
qed

subsection \<open>The line width 1\<close>

lemma group_runs_nonempty: "s \<noteq> [] \<Longrightarrow> group_runs P s \<noteq> []"
  by (cases s) (auto split: list.splits)

text \<open>
  Claim C5 fails on the code at the line width 1. An entry with the body \<open>Cold.\<close> and
  \<open>linewrap = 1\<close> has one body line to wrap; its \<open>textwrap.fill\<close> with the prefix \<open>"| "\<close> and
  \<open>drop_whitespace=False\<close> never ends, so the full \<open>pprint\<close> does not return and nothing is
  wrapped or prefixed.
\<close>

theorem pprint_linewrap_1_never_wraps:
  "pprint example_env
     ((example_entry 2023 1 5 ''Walk'' ''Cold.'')\<lparr>journal_config := example_config\<lparr>linewrap := 1\<rparr>\<rparr>)
     False = None"
proof (rule pprint_linewrap_1)
  show "linewrap (journal_config
          ((example_entry 2023 1 5 ''Walk'' ''Cold.'')\<lparr>journal_config := example_config\<lparr>linewrap := 1\<rparr>\<rparr>)) = 1"
    by simp
  show "splitlines (rstrip [CHR '' '', NL]
          (body ((example_entry 2023 1 5 ''Walk'' ''Cold.'')\<lparr>journal_config := example_config\<lparr>linewrap := 1\<rparr>\<rparr>))) \<noteq> []"
    by (simp add: example_entry_def rstrip_def splitlines_def line_boundary_def)
  show "\<forall>s. s \<noteq> [] \<longrightarrow> wordsep_split example_env s \<noteq> []"
    by (simp add: example_env_def group_runs_nonempty)
qed

text \<open>
  Claim C6 fails on the code at the line width 1, by the same defect. The body
  \<open>Remember the milk.\<close> is worth displaying, yet with \<open>linewrap = 1\<close> the full \<open>pprint\<close> of the
  entry does not return, so neither the body nor its separator is rendered; the short
  rendering of the same entry returns.
\<close>

theorem pprint_linewrap_1_no_body:
  "has_body ((example_entry 2023 1 5 ''Shop'' ''Remember the milk.'')
               \<lparr>journal_config := example_config\<lparr>linewrap := 1\<rparr>\<rparr>)
   \<and> pprint example_env
       ((example_entry 2023 1 5 ''Shop'' ''Remember the milk.'')
          \<lparr>journal_config := example_config\<lparr>linewrap := 1\<rparr>\<rparr>)
       False = None
   \<and> pprint example_env
       ((example_entry 2023 1 5 ''Shop'' ''Remember the milk.'')
          \<lparr>journal_config := example_config\<lparr>linewrap := 1\<rparr>\<rparr>)
       True = Some ''2023-01-05 09:30 Shop''"
proof (intro conjI)
  let ?e = "(example_entry 2023 1 5 ''Shop'' ''Remember the milk.'')
               \<lparr>journal_config := example_config\<lparr>linewrap := 1\<rparr>\<rparr>"
  show "has_body ?e"
    by (simp add: has_body_def example_entry_def)
  show "pprint example_env ?e False = None"
  proof (rule pprint_linewrap_1)
    show "linewrap (journal_config ?e) = 1" by simp
    show "splitlines (rstrip [CHR '' '', NL] (body ?e)) \<noteq> []"
      by (simp add: example_entry_def rstrip_def splitlines_def line_boundary_def)
    show "\<forall>s. s \<noteq> [] \<longrightarrow> wordsep_split example_env s \<noteq> []"
      by (simp add: example_env_def group_runs_nonempty)
  qed
  show "pprint example_env ?e True = Some ''2023-01-05 09:30 Shop''"
    by (simp add: pprint_short example_eval strftime_eval rstrip_def)
qed

section \<open>Export to one file or to the caller\<close>

lemma export_maps_lookup:
  "format \<in> set [''json'', ''txt'', ''text'', ''md'', ''markdown''] \<Longrightarrow>
     map_of (export_maps env) format = Some (aggregated env format)"
  by (auto simp: export_maps_def aggregated_def fun_eq_iff)

text \<open>
  The JSON and the Markdown rendering always return. The text rendering returns when no
  entry is configured with a line width of 1.
\<close>

lemma pprint_returns:
  assumes "linewrap (journal_config e) \<noteq> 1"
  shows "\<exists>r. pprint env e short = Some r"
proof -
  obtain t where t: "pprint_title env e short = Some t"
    using pprint_title_returns by blast
  obtain b where b: "pprint_body env e short = Some b"
    using pprint_body_returns[OF assms] by blast
  from t b show ?thesis by (simp add: pprint_def)
qed

lemma journal_pprint_returns:
  assumes "\<forall>e\<in>set (entries j). linewrap (journal_config e) \<noteq> 1"
  shows "\<exists>r. journal_pprint env j = Some r"
proof -
  have "\<forall>e\<in>set (entries j). \<exists>y. pprint env e False = Some y \<and> True"
    using assms pprint_returns by blast
  then have "\<exists>ys. those (map (\<lambda>e. pprint env e False) (entries j)) = Some ys
                 \<and> list_all2 (\<lambda>e y. True) (entries j) ys"
    by (rule those_map_ex)
  then show ?thesis by (auto simp: journal_pprint_def)
qed

lemma aggregated_returns:
  assumes "format \<in> set [''json'', ''md'', ''markdown'']
           \<or> (\<forall>e\<in>set (entries j). linewrap (journal_config e) \<noteq> 1)"
  shows "\<exists>content. aggregated env format j = Some content"
  using assms journal_pprint_returns[of j env]
  by (auto simp: aggregated_def to_txt_def)

text \<open>
  What \<open>export\<close> does with a valid format whose rendering returns: with a non-empty output
  path that is not an existing directory it writes the rendered content to that one file
  and returns \<open>[Journal exported to <path>]\<close>; when the file cannot be opened it changes
  nothing and returns \<open>[ERROR: <path> <error text>]\<close>; when writing or closing fails it
  returns \<open>[ERROR: None <error text>]\<close>. With no output path it returns the rendered content
  and touches no file.
\<close>

lemma export_single_file:
  assumes "format \<in> set [''json'', ''txt'', ''text'', ''md'', ''markdown'']"
    and "aggregated env format j = Some content"
  shows "(p \<noteq> [] \<and> \<not> isdir fs p \<and> open_error fs p = None \<and> write_error fs p content = None \<longrightarrow>
            export env fs j format (Some p)
              = Some (Returns (''[Journal exported to '' @ p @ '']''),
                      fs\<lparr>files := (files fs)(p \<mapsto> content)\<rparr>))
         \<and> (p \<noteq> [] \<and> \<not> isdir fs p \<and> open_error fs p = Some err \<longrightarrow>
            export env fs j format (Some p)
              = Some (Returns (''[ERROR: '' @ p @ '' '' @ err @ '']''), fs))
         \<and> (p \<noteq> [] \<and> \<not> isdir fs p \<and> open_error fs p = None
              \<and> write_error fs p content = Some (err, kept) \<longrightarrow>
            export env fs j format (Some p)
              = Some (Returns (''[ERROR: None '' @ err @ '']''),
                      fs\<lparr>files := (files fs)(p \<mapsto> kept)\<rparr>))
         \<and> export env fs j format None = Some (Returns content, fs)"
proof -
  note look = export_maps_lookup[OF assms(1), of env]
  have none: "export env fs j format None = Some (Returns content, fs)"
    by (simp add: export_def look truthy_def assms(2))
  have good: "export env fs j format (Some p)
              = Some (Returns (''[Journal exported to '' @ p @ '']''),
                      fs\<lparr>files := (files fs)(p \<mapsto> content)\<rparr>)"
    if "p \<noteq> [] \<and> \<not> isdir fs p \<and> open_error fs p = None \<and> write_error fs p content = None"
    using that
    by (simp add: export_def look truthy_def assms(2) write_text_def open_w_def write_close_def)
  have bad_open: "export env fs j format (Some p)
              = Some (Returns (''[ERROR: '' @ p @ '' '' @ err @ '']''), fs)"
    if "p \<noteq> [] \<and> \<not> isdir fs p \<and> open_error fs p = Some err"
    using that
    by (simp add: export_def look truthy_def assms(2) write_text_def open_w_def format_arg_def)
  have bad_write: "export env fs j format (Some p)
              = Some (Returns (''[ERROR: None '' @ err @ '']''),
                      fs\<lparr>files := (files fs)(p \<mapsto> kept)\<rparr>)"
    if "p \<noteq> [] \<and> \<not> isdir fs p \<and> open_error fs p = None
          \<and> write_error fs p content = Some (err, kept)"
    using that
    by (simp add: export_def look truthy_def assms(2) write_text_def open_w_def write_close_def
          format_arg_def)
  from none good bad_open bad_write show ?thesis by blast
qed

lemma export_not_rendered:
  assumes "format \<in> set [''json'', ''txt'', ''text'', ''md'', ''markdown'']"
    and "aggregated env format j = None"
    and "\<not> (truthy output \<and> isdir fs (the output))"
  shows "export env fs j format output = None"
  using assms(2,3) by (simp add: export_def export_maps_lookup[OF assms(1)])

text \<open>
  Claim C9 fails on the code in two ways. When the file opens and the write fails, as on
  the device \<open>/dev/full\<close>, the \<open>IOError\<close> carries no file name and the handler prints
  \<open>e.filename\<close> all the same: \<open>export\<close> returns \<open>[ERROR: None No space left on device]\<close>,
  which does not hold the path. And the text format renders through \<open>Entry.pprint\<close>, which
  does not return for an entry with a body at \<open>linewrap = 1\<close>: \<open>export\<close> with no output path
  then returns nothing at all.
\<close>

theorem export_write_error_without_path:
  "map_option fst
     (export example_env example_fs \<lparr>entries = [example_entry 2023 1 5 ''Walk'' ''Cold.'']\<rparr>
        ''md'' (Some ''/dev/full''))
     = Some (Returns ''[ERROR: None No space left on device]'')
   \<and> \<not> isdir example_fs ''/dev/full''
   \<and> \<not> sublist ''/dev/full'' ''[ERROR: None No space left on device]''
   \<and> export example_env example_fs
        \<lparr>entries = [(example_entry 2023 1 5 ''Walk'' ''Cold.'')
                       \<lparr>journal_config := example_config\<lparr>linewrap := 1\<rparr>\<rparr>]\<rparr>
        ''txt'' None
     = None"
proof (intro conjI)
  show "map_option fst
     (export example_env example_fs \<lparr>entries = [example_entry 2023 1 5 ''Walk'' ''Cold.'']\<rparr>
        ''md'' (Some ''/dev/full''))
     = Some (Returns ''[ERROR: None No space left on device]'')"
    by (simp add: export_def export_maps_def truthy_def write_text_def open_w_def write_close_def
          format_arg_def example_fs_def)
  show "\<not> isdir example_fs ''/dev/full''"
    by (simp add: example_fs_def)
  show "\<not> sublist ''/dev/full'' ''[ERROR: None No space left on device]''"
    by (simp add: sublist_Cons_right prefix_Cons)
  let ?e = "(example_entry 2023 1 5 ''Walk'' ''Cold.'')
              \<lparr>journal_config := example_config\<lparr>linewrap := 1\<rparr>\<rparr>"
  have "pprint example_env ?e False = None"
  proof (rule pprint_linewrap_1)
    show "linewrap (journal_config ?e) = 1" by simp
    show "splitlines (rstrip [CHR '' '', NL] (body ?e)) \<noteq> []"
      by (simp add: example_entry_def rstrip_def splitlines_def line_boundary_def)
    show "\<forall>s. s \<noteq> [] \<longrightarrow> wordsep_split example_env s \<noteq> []"
      by (simp add: example_env_def group_runs_nonempty)
  qed
  then have "to_txt example_env \<lparr>entries = [?e]\<rparr> = None"
    by (simp add: to_txt_def journal_pprint_def)
  then show "export example_env example_fs \<lparr>entries = [?e]\<rparr> ''txt'' None = None"
    by (simp add: export_def export_maps_def truthy_def)
qed

end
